theory Spec2Isabelle
  imports Complex_Main "HOL-Library.Log_Nat" "HOL-Library.Sublist"
begin

section \<open>JavaScript values used by the bridge module\<close>

subsection \<open>Strings\<close>

text \<open>
  Strings are lists of characters.  The module splits the bridge's output at a single
  character (\<^verbatim>\<open>split('\n')\<close>, \<^verbatim>\<open>split('\t')\<close>) and tests for substrings
  (\<^verbatim>\<open>includes\<close>).  \<open>str_split\<close> never returns the empty list: the empty string splits
  into one empty field, as in JavaScript.
\<close>

abbreviation TAB :: char where "TAB \<equiv> CHR 0x09"
abbreviation LF :: char where "LF \<equiv> CHR 0x0A"
abbreviation DQ :: char where "DQ \<equiv> CHR 0x22"

fun str_split :: "char \<Rightarrow> string \<Rightarrow> string list" where
  "str_split c [] = [[]]"
| "str_split c (x # xs) =
     (if x = c then [] # str_split c xs
      else (case str_split c xs of [] \<Rightarrow> [[x]] | y # ys \<Rightarrow> (x # y) # ys))"

fun str_includes :: "string \<Rightarrow> string \<Rightarrow> bool" where
  "str_includes [] sub = (sub = [])"
| "str_includes (x # xs) sub = (prefix sub (x # xs) \<or> str_includes xs sub)"

text \<open>\<open>ToString\<close> of a value of type \<^verbatim>\<open>string | null\<close>, as template literals and
  \<^verbatim>\<open>parseInt\<close> apply it; \<open>truthy\<close> is the test behind \<^verbatim>\<open>if (x)\<close> and \<^verbatim>\<open>!x\<close>: null and
  the empty string are falsy.\<close>

definition ToString :: "string option \<Rightarrow> string" where
  "ToString v = (case v of None \<Rightarrow> ''null'' | Some s \<Rightarrow> s)"

definition truthy :: "string option \<Rightarrow> bool" where
  "truthy v = (case v of None \<Rightarrow> False | Some s \<Rightarrow> s \<noteq> [])"

subsection \<open>Numbers\<close>

text \<open>
  A JavaScript number is an IEEE 754 double: not-a-number, an infinity, or a finite value,
  kept here as the rational it denotes.  Every arithmetic operation computes the exact
  result and rounds it to the nearest double, ties to the even significand (\<open>fl\<close>); a
  rounded magnitude of \<open>2 ^ 1024\<close> or more is an infinity (\<open>double_of\<close>).  The sign of zero
  is not kept: it shows only in a division by zero, and the module divides by the
  constants 255 and 10 only.

  \<open>expo x\<close> is the binary exponent of a positive \<open>x\<close> (\<open>2 powi expo x \<le> x < 2 powi (expo x + 1)\<close>),
  \<open>ulp x\<close> the spacing of the doubles around \<open>x\<close> (53 significant bits, subnormal below
  \<open>2 powi - 1022\<close>), \<open>rne\<close> rounds to the nearest integer, ties to even.
\<close>

datatype number = NaN | PInf | NInf | Num rat

definition expo :: "rat \<Rightarrow> int" where
  "expo x = (let (p, q) = quotient_of x; k = bitlen p - bitlen q
             in if 2 powi k \<le> x then k else k - 1)"

definition ulp :: "rat \<Rightarrow> rat" where
  "ulp x = 2 powi (max (expo x) (- 1022) - 52)"

definition rne :: "rat \<Rightarrow> int" where
  "rne x = (let f = \<lfloor>x\<rfloor>; d = x - of_int f
            in if d < 1 / 2 then f else if 1 / 2 < d then f + 1
               else if even f then f else f + 1)"

definition fl :: "rat \<Rightarrow> rat" where
  "fl x = (if x = 0 then 0
           else sgn x * (of_int (rne (\<bar>x\<bar> / ulp \<bar>x\<bar>)) * ulp \<bar>x\<bar>))"

definition double_of :: "rat \<Rightarrow> number" where
  "double_of x = (let r = fl x
                  in if 2 ^ 1024 \<le> r then PInf else if r \<le> - (2 ^ 1024) then NInf
                     else Num r)"

fun js_neg :: "number \<Rightarrow> number" where
  "js_neg NaN = NaN"
| "js_neg PInf = NInf"
| "js_neg NInf = PInf"
| "js_neg (Num a) = Num (- a)"

fun js_add :: "number \<Rightarrow> number \<Rightarrow> number" where
  "js_add (Num a) (Num b) = double_of (a + b)"
| "js_add NaN _ = NaN"
| "js_add _ NaN = NaN"
| "js_add PInf NInf = NaN"
| "js_add NInf PInf = NaN"
| "js_add PInf _ = PInf"
| "js_add _ PInf = PInf"
| "js_add NInf _ = NInf"
| "js_add _ NInf = NInf"

definition js_sub :: "number \<Rightarrow> number \<Rightarrow> number" where
  "js_sub a b = js_add a (js_neg b)"

text \<open>The sign of a product or quotient with an infinite operand: \<open>signed neg\<close> is the
  infinity of that sign.\<close>

definition signed :: "bool \<Rightarrow> number" where
  "signed neg = (if neg then NInf else PInf)"

fun js_mul :: "number \<Rightarrow> number \<Rightarrow> number" where
  "js_mul (Num a) (Num b) = double_of (a * b)"
| "js_mul NaN _ = NaN"
| "js_mul _ NaN = NaN"
| "js_mul PInf PInf = PInf"
| "js_mul PInf NInf = NInf"
| "js_mul NInf PInf = NInf"
| "js_mul NInf NInf = PInf"
| "js_mul PInf (Num b) = (if b = 0 then NaN else signed (b < 0))"
| "js_mul NInf (Num b) = (if b = 0 then NaN else signed (0 < b))"
| "js_mul (Num a) PInf = (if a = 0 then NaN else signed (a < 0))"
| "js_mul (Num a) NInf = (if a = 0 then NaN else signed (0 < a))"

fun js_div :: "number \<Rightarrow> number \<Rightarrow> number" where
  "js_div (Num a) (Num b) =
     (if b = 0 then (if a = 0 then NaN else signed (a < 0)) else double_of (a / b))"
| "js_div NaN _ = NaN"
| "js_div _ NaN = NaN"
| "js_div (Num a) PInf = Num 0"
| "js_div (Num a) NInf = Num 0"
| "js_div PInf (Num b) = signed (b < 0)"
| "js_div NInf (Num b) = signed (0 \<le> b)"
| "js_div PInf PInf = NaN"
| "js_div PInf NInf = NaN"
| "js_div NInf PInf = NaN"
| "js_div NInf NInf = NaN"

text \<open>\<^verbatim>\<open>Math.round\<close> is exact: the integer nearest to its argument, a tie going up.
  \<^verbatim>\<open>Math.max\<close> is not-a-number as soon as one argument is.\<close>

fun Math_round :: "number \<Rightarrow> number" where
  "Math_round (Num x) = Num (of_int \<lfloor>x + 1 / 2\<rfloor>)"
| "Math_round v = v"

fun Math_max :: "number \<Rightarrow> number \<Rightarrow> number" where
  "Math_max (Num a) (Num b) = Num (max a b)"
| "Math_max NaN _ = NaN"
| "Math_max _ NaN = NaN"
| "Math_max PInf _ = PInf"
| "Math_max _ PInf = PInf"
| "Math_max NInf b = b"
| "Math_max a NInf = a"

text \<open>
  \<^verbatim>\<open>parseInt\<close> with no radix: leading white space is skipped, a sign is read, a prefix
  \<^verbatim>\<open>0x\<close> selects radix 16, and the longest run of digits that follows is the value; no
  digit at all gives not-a-number.  \<open>digit_value\<close> is 36 for a character that is a digit
  in no radix.
\<close>

definition is_space :: "char \<Rightarrow> bool" where
  "is_space c = (c \<in> set [CHR 0x09, CHR 0x0A, CHR 0x0B, CHR 0x0C, CHR 0x0D, CHR '' ''])"

definition digit_value :: "char \<Rightarrow> nat" where
  "digit_value c =
     (let n = of_char c
      in if 48 \<le> n \<and> n \<le> 57 then n - 48
         else if 97 \<le> n \<and> n \<le> 122 then n - 87
         else if 65 \<le> n \<and> n \<le> 90 then n - 55
         else 36)"

definition parseInt :: "string \<Rightarrow> number" where
  "parseInt str =
     (let s = dropWhile is_space str;
          neg = (case s of [] \<Rightarrow> False | c # _ \<Rightarrow> c = CHR ''-'');
          s1 = (case s of [] \<Rightarrow> s | c # r \<Rightarrow> if c = CHR ''+'' \<or> c = CHR ''-'' then r else s);
          hex = (prefix ''0x'' s1 \<or> prefix ''0X'' s1);
          radix = (if hex then 16 else 10);
          s2 = (if hex then drop 2 s1 else s1);
          z = takeWhile (\<lambda>c. digit_value c < radix) s2;
          n = foldl (\<lambda>a c. a * radix + digit_value c) 0 z
      in if z = [] then NaN
         else double_of (if neg then - of_nat n else of_nat n))"

text \<open>
  The decimal digits of a natural number (\<open>is_dec\<close> holds of the ten digit characters),
  and the text of a number as a template literal interpolates it.  The module
  interpolates results of \<^verbatim>\<open>Math.round\<close> only; they print as their decimal digits up to
  \<open>2 ^ 53\<close>.  From there on the engine prints the shortest digits that read back as the
  same double, and a number with a fraction prints its fraction: \<open>Number_toString\<close> gives
  the integer part for both and nothing below relies on the printed form of such a
  number.
\<close>

fun digits :: "nat \<Rightarrow> string" where
  "digits n = (if n < 10 then [char_of (48 + n)]
               else digits (n div 10) @ [char_of (48 + n mod 10)])"

declare digits.simps [simp del]

definition is_dec :: "char \<Rightarrow> bool" where
  "is_dec c = (\<exists>d < 10. c = char_of (48 + d :: nat))"

fun Number_toString :: "number \<Rightarrow> string" where
  "Number_toString NaN = ''NaN''"
| "Number_toString PInf = ''Infinity''"
| "Number_toString NInf = ''-Infinity''"
| "Number_toString (Num x) =
     (if x < 0 then CHR ''-'' # digits (nat \<lfloor>- x\<rfloor>) else digits (nat \<lfloor>x\<rfloor>))"

section \<open>The brightness transform\<close>

text \<open>
  \<^verbatim>\<open>function parseBrightness(brightness: string) { return 1 - parseInt(brightness) / 255 }\<close>
  \<^verbatim>\<open>function formatBrightness(brightness: number) { return 255 - Math.round(brightness * 255) }\<close>
  The argument of \<open>parseBrightness\<close> is the output of a command, which is null when the
  command failed.
\<close>

definition parseBrightness :: "string option \<Rightarrow> number" where
  "parseBrightness brightness =
     js_sub (Num 1) (js_div (parseInt (ToString brightness)) (Num 255))"

definition formatBrightness :: "number \<Rightarrow> number" where
  "formatBrightness brightness =
     js_sub (Num 255) (Math_round (js_mul brightness (Num 255)))"

section \<open>Commands, the host and the trace of a call\<close>

text \<open>
  The module reaches the device only through \<^verbatim>\<open>execAsync\<close>, which it imports from
  \<^verbatim>\<open>utils.js\<close> with \<^verbatim>\<open>getPlatformADB\<close> and \<^verbatim>\<open>log\<close>; it imports the collaborators
  \<^verbatim>\<open>getSocketPassword\<close>, \<^verbatim>\<open>getServerPort\<close> and \<^verbatim>\<open>getWebAppDir\<close> from three other
  modules.  What these do is a parameter of the model, together with what the module
  asks of Node and Electron (\<^verbatim>\<open>os.platform\<close>, \<^verbatim>\<open>app.getPath\<close>, \<^verbatim>\<open>path.join\<close>, \<^verbatim>\<open>fs\<close>,
  \<^verbatim>\<open>axios.get\<close>).  The type \<open>'w\<close> is the state of everything outside the process: the
  devices, the file system, the network.

  The module itself shows the three outcomes of \<^verbatim>\<open>execAsync\<close>: its promise may reject
  (\<^verbatim>\<open>.catch(() => null)\<close> at the version check), resolve to null (\<^verbatim>\<open>extract === null\<close>)
  or resolve to the captured text.
\<close>

datatype outcome = Rejects | Null | Stdout string

datatype error =
    Error string    \<comment> \<open>\<^verbatim>\<open>throw new Error(message)\<close>\<close>
  | TypeError       \<comment> \<open>a method called on null\<close>
  | ExecRejected    \<comment> \<open>the promise of \<^verbatim>\<open>execAsync\<close> rejected\<close>
  | HostError       \<comment> \<open>a failure of the file system, the network or a collaborator\<close>

abbreviation no_device :: error where
  "no_device \<equiv> Error ''No valid CarThing found''"

datatype LogLevel = DEBUG | INFO | WARN | ERROR

record 'w env =
  run :: "string \<Rightarrow> 'w \<Rightarrow> outcome \<times> 'w"
  platform :: string
  downloadURL :: string
  executable :: string
  getPath :: "string \<Rightarrow> string"
  path_join :: "string \<Rightarrow> string \<Rightarrow> string"
  existsSync :: "string \<Rightarrow> 'w \<Rightarrow> bool"
  unlinkSync :: "string \<Rightarrow> 'w \<Rightarrow> unit option \<times> 'w"
  axios_get :: "string \<Rightarrow> 'w \<Rightarrow> nat option \<times> 'w"
  pipe_to_file :: "string \<Rightarrow> 'w \<Rightarrow> unit option \<times> 'w"
  getSocketPassword :: "'w \<Rightarrow> string"
  getServerPort :: "'w \<Rightarrow> string option \<times> 'w"
  getWebAppDir :: "'w \<Rightarrow> string option \<times> 'w"

text \<open>
  The state of a call: the outside world, and what the call has done so far, oldest
  first: the command lines given to \<^verbatim>\<open>execAsync\<close>, the URLs requested with
  \<^verbatim>\<open>axios.get\<close>, and the lines given to \<^verbatim>\<open>log\<close> (message, scope, level if one is given).
\<close>

record 'w state =
  world :: 'w
  cmds :: "string list"
  requests :: "string list"
  logs :: "(string \<times> string \<times> LogLevel option) list"

text \<open>An asynchronous function is a state transformer that returns a value or throws.
  \<open>await m f\<close> runs \<open>m\<close> and continues with \<open>f\<close> on its value; an error of \<open>m\<close> ends
  the call.\<close>

type_synonym ('w, 'a) task = "'w state \<Rightarrow> (error + 'a) \<times> 'w state"

definition return :: "'a \<Rightarrow> ('w, 'a) task" where
  "return a s = (Inr a, s)"

definition throw :: "error \<Rightarrow> ('w, 'a) task" where
  "throw e s = (Inl e, s)"

definition await :: "('w, 'a) task \<Rightarrow> ('a \<Rightarrow> ('w, 'b) task) \<Rightarrow> ('w, 'b) task" where
  "await m f s = (case m s of (Inl e, s') \<Rightarrow> (Inl e, s') | (Inr a, s') \<Rightarrow> f a s')"

text \<open>\<^verbatim>\<open>promise.catch(() => null)\<close>\<close>

definition catch_null :: "('w, string option) task \<Rightarrow> ('w, string option) task" where
  "catch_null m s = (case m s of (Inl e, s') \<Rightarrow> (Inr None, s') | (Inr a, s') \<Rightarrow> (Inr a, s'))"

definition execAsync :: "'w env \<Rightarrow> string \<Rightarrow> ('w, string option) task" where
  "execAsync env cmd s =
     (case run env cmd (world s) of (res, w) \<Rightarrow>
        (case res of Rejects \<Rightarrow> Inl ExecRejected | Null \<Rightarrow> Inr None | Stdout out \<Rightarrow> Inr (Some out),
         s\<lparr>world := w, cmds := cmds s @ [cmd]\<rparr>))"

definition log_msg :: "string \<Rightarrow> string \<Rightarrow> LogLevel option \<Rightarrow> ('w, unit) task" where
  "log_msg message scope level s = (Inr (), s\<lparr>logs := logs s @ [(message, scope, level)]\<rparr>)"

text \<open>The host's operations, lifted to tasks.  A host operation returns its value, or
  none when it fails (\<^verbatim>\<open>unlinkSync\<close> throws, a promise rejects); \<^verbatim>\<open>axios.get\<close> returns
  the status of the response (\<^verbatim>\<open>validateStatus: () => true\<close>: no status rejects), and
  \<open>pipe_to_file\<close> stands for writing the response to the file and waiting for the
  writer to finish.\<close>

definition host :: "('w \<Rightarrow> 'a option \<times> 'w) \<Rightarrow> ('w, 'a) task" where
  "host f s =
     (case f (world s) of (res, w) \<Rightarrow>
        (case res of None \<Rightarrow> Inl HostError | Some a \<Rightarrow> Inr a, s\<lparr>world := w\<rparr>))"

definition fs_existsSync :: "'w env \<Rightarrow> string \<Rightarrow> ('w, bool) task" where
  "fs_existsSync env path s = (Inr (existsSync env path (world s)), s)"

definition axios_get_status :: "'w env \<Rightarrow> string \<Rightarrow> ('w, nat) task" where
  "axios_get_status env url s =
     (case axios_get env url (world s) of (res, w) \<Rightarrow>
        (case res of None \<Rightarrow> Inl HostError | Some status \<Rightarrow> Inr status,
         s\<lparr>world := w, requests := requests s @ [url]\<rparr>))"

section \<open>The bridge resolver\<close>

text \<open>\<^verbatim>\<open>getAdbExecutable\<close>, lines 12 to 66: the bare name when the version check succeeds
  off darwin, the quoted install path when the file is there, and otherwise download,
  extract and the quoted install path.\<close>

definition quoted :: "string \<Rightarrow> string" where
  "quoted path = DQ # path @ [DQ]"

definition getAdbExecutable :: "'w env \<Rightarrow> ('w, string) task" where
  "getAdbExecutable env =
     await (catch_null (execAsync env ''adb version'')) (\<lambda>res.
     if truthy res \<and> platform env \<noteq> ''darwin'' then return ''adb''
     else
       let userDataPath = getPath env ''userData'';
           platformToolsPath = path_join env userDataPath ''platform-tools'';
           adbPath = path_join env platformToolsPath (executable env)
       in
       await (fs_existsSync env adbPath) (\<lambda>cached.
       if cached then return (quoted adbPath)
       else
         await (log_msg ''Downloading ADB...'' ''adb'' None) (\<lambda>_.
         let downloadPath =
               path_join env (getPath env ''temp'') ''platform-tools-glancething-temp.zip''
         in
         await (fs_existsSync env downloadPath) (\<lambda>stale.
         await (if stale then host (unlinkSync env downloadPath) else return ()) (\<lambda>_.
         await (axios_get_status env (downloadURL env)) (\<lambda>status.
         if status \<noteq> 200 then
           await (log_msg ''Failed to download adb'' ''adb'' (Some ERROR)) (\<lambda>_.
           throw (Error ''adb_download_failed''))
         else
           await (host (pipe_to_file env downloadPath)) (\<lambda>_.
           await (log_msg ''Downloaded ADB!'' ''adb'' None) (\<lambda>_.
           await (execAsync env
                    (''tar -xf '' @ downloadPath @ '' -C '' @ quoted userDataPath)) (\<lambda>extract.
           if extract = None then
             await (log_msg ''Failed to extract adb'' ''adb'' None) (\<lambda>_.
             throw (Error ''adb_extract_failed''))
           else
             await (log_msg ''Extracted ADB!'' ''adb'' None) (\<lambda>_.
             return (quoted adbPath)))))))))))"

section \<open>The device locator\<close>

text \<open>\<^verbatim>\<open>getDevices\<close>, lines 68 to 78.  A null result of the device list has no \<^verbatim>\<open>split\<close>:
  the call throws a type error.\<close>

definition getDevices :: "'w env \<Rightarrow> ('w, string list) task" where
  "getDevices env =
     await (getAdbExecutable env) (\<lambda>adb.
     await (execAsync env (adb @ '' devices'')) (\<lambda>res.
     case res of
       None \<Rightarrow> throw TypeError
     | Some out \<Rightarrow>
         return (map (\<lambda>line. hd (str_split TAB line))
                   (filter (\<lambda>line. str_includes line (TAB # ''device''))
                      (str_split LF out)))))"

text \<open>\<^verbatim>\<open>checkValidDevice\<close>, lines 80 to 87.\<close>

definition checkValidDevice :: "'w env \<Rightarrow> string \<Rightarrow> ('w, bool) task" where
  "checkValidDevice env device =
     await (getAdbExecutable env) (\<lambda>adb.
     await (execAsync env
              (adb @ '' -s '' @ device @ '' shell ls /usr/share/qt-superbird-app/webapp/''))
       (\<lambda>res.
     case res of
       None \<Rightarrow> throw TypeError
     | Some out \<Rightarrow> return (str_includes out ''index.html'')))"

text \<open>\<^verbatim>\<open>findCarThing\<close>, lines 89 to 102.  \<open>first_valid\<close> is its \<^verbatim>\<open>for\<close> loop, which
  leaves the function with the first device that passes the check.\<close>

fun first_valid :: "'w env \<Rightarrow> string list \<Rightarrow> ('w, string option) task" where
  "first_valid env [] = return None"
| "first_valid env (device # rest) =
     await (checkValidDevice env device) (\<lambda>valid.
     if valid then
       await (log_msg (''Found CarThing: '' @ device) ''adb'' None) (\<lambda>_.
       return (Some device))
     else first_valid env rest)"

definition findCarThing :: "'w env \<Rightarrow> ('w, string option) task" where
  "findCarThing env =
     await (log_msg ''Finding CarThing...'' ''adb'' (Some DEBUG)) (\<lambda>_.
     await (getDevices env) (\<lambda>devices.
     await (first_valid env devices) (\<lambda>found.
     case found of
       Some device \<Rightarrow> return (Some device)
     | None \<Rightarrow>
         await (log_msg ''No valid CarThing found'' ''adb'' (Some WARN)) (\<lambda>_.
         return None))))"

section \<open>The device operations\<close>

text \<open>
  Every operation opens with the same two lines,
  \<^verbatim>\<open>if (!device) device = await findCarThing()\<close> and
  \<^verbatim>\<open>if (!device) throw new Error('No valid CarThing found')\<close>,
  and then asks for the bridge executable.  A command that is written
  \<^verbatim>\<open>shell "..."\<close> in the source is \<open>'' shell '' @ quoted ...\<close> here.
\<close>

text \<open>\<^verbatim>\<open>restartChromium\<close>, lines 104 to 115.\<close>

definition restartChromium :: "'w env \<Rightarrow> string option \<Rightarrow> ('w, unit) task" where
  "restartChromium env device0 =
     await (if \<not> truthy device0 then findCarThing env else return device0) (\<lambda>device.
     if \<not> truthy device then throw no_device
     else
       await (getAdbExecutable env) (\<lambda>adb.
       await (log_msg ''Restarting Chromium...'' ''adb'' (Some DEBUG)) (\<lambda>_.
       await (execAsync env
                (adb @ '' -s '' @ ToString device @ '' shell ''
                   @ quoted ''supervisorctl restart chromium'')) (\<lambda>_.
       log_msg ''Restarted Chromium!'' ''adb'' None))))"

text \<open>\<^verbatim>\<open>setAutoBrightness\<close>, lines 117 to 129.\<close>

definition setAutoBrightness :: "'w env \<Rightarrow> string option \<Rightarrow> bool \<Rightarrow> ('w, unit) task" where
  "setAutoBrightness env device0 enabled =
     await (if \<not> truthy device0 then findCarThing env else return device0) (\<lambda>device.
     if \<not> truthy device then throw no_device
     else
       await (getAdbExecutable env) (\<lambda>adb.
       await (execAsync env
                (adb @ '' -s '' @ ToString device @ '' shell ''
                   @ quoted (''supervisorctl '' @ (if enabled then ''start'' else ''stop'')
                               @ '' backlight''))) (\<lambda>_.
       return ())))"

text \<open>\<^verbatim>\<open>getBrightness\<close>, lines 139 to 150.\<close>

definition getBrightness :: "'w env \<Rightarrow> string option \<Rightarrow> bool \<Rightarrow> ('w, number) task" where
  "getBrightness env device0 parse =
     await (if \<not> truthy device0 then findCarThing env else return device0) (\<lambda>device.
     if \<not> truthy device then throw no_device
     else
       await (getAdbExecutable env) (\<lambda>adb.
       await (execAsync env
                (adb @ '' -s '' @ ToString device @ '' shell ''
                   @ quoted ''cat /sys/devices/platform/backlight/backlight/aml-bl/brightness''))
         (\<lambda>res.
       return (if parse then parseBrightness res else parseInt (ToString res)))))"

text \<open>The command that writes a raw value to the backlight register; \<^verbatim>\<open>setBrightness\<close>
  and \<^verbatim>\<open>setBrightnessSmooth\<close> build it with the same template literal.\<close>

definition echo_brightness :: "string \<Rightarrow> string \<Rightarrow> number \<Rightarrow> string" where
  "echo_brightness adb device v =
     adb @ '' -s '' @ device @ '' shell ''
       @ quoted (''echo '' @ Number_toString v
                   @ '' > /sys/devices/platform/backlight/backlight/aml-bl/brightness'')"

text \<open>\<^verbatim>\<open>setBrightness\<close>, lines 152 to 166.\<close>

definition setBrightness :: "'w env \<Rightarrow> string option \<Rightarrow> number \<Rightarrow> ('w, unit) task" where
  "setBrightness env device0 brightness =
     await (if \<not> truthy device0 then findCarThing env else return device0) (\<lambda>device.
     if \<not> truthy device then throw no_device
     else
       await (getAdbExecutable env) (\<lambda>adb.
       let formatted = formatBrightness brightness in
       await (execAsync env (echo_brightness adb (ToString device) formatted)) (\<lambda>_.
       return ())))"

text \<open>\<^verbatim>\<open>setBrightnessSmooth\<close>, lines 168 to 191.  \<open>ramp\<close> is its \<^verbatim>\<open>for\<close> loop from
  \<open>i\<close> on; the result of each write is dropped, so only a rejected write ends the loop
  early.\<close>

definition steps :: nat where
  "steps = 10"

function ramp :: "'w env \<Rightarrow> string \<Rightarrow> string \<Rightarrow> number \<Rightarrow> number \<Rightarrow> nat \<Rightarrow> ('w, unit) task" where
  "ramp env adb device currentValue targetValue i =
     (if i \<le> steps then
        let v = Math_round
                  (js_add currentValue
                     (js_mul (js_sub targetValue currentValue)
                        (js_div (Num (of_nat i)) (Num (of_nat steps)))))
        in
        await (execAsync env (echo_brightness adb device v)) (\<lambda>_.
        ramp env adb device currentValue targetValue (i + 1))
      else return ())"
  by pat_completeness auto
termination
  by (relation "measure (\<lambda>(env, adb, device, currentValue, targetValue, i). steps + 1 - i)") auto

declare ramp.simps [simp del]

text \<open>The value that the loop computes in its round \<open>i\<close>.\<close>

definition ramp_value :: "number \<Rightarrow> number \<Rightarrow> nat \<Rightarrow> number" where
  "ramp_value currentValue targetValue i =
     Math_round
       (js_add currentValue
          (js_mul (js_sub targetValue currentValue)
             (js_div (Num (of_nat i)) (Num (of_nat steps)))))"

text \<open>For integer raw values the value of round \<open>i\<close> is the integer \<open>ramp_int c t i\<close>
  (lemma \<open>ramp_value_int\<close> below): the exact operations of the source with each result
  rounded to a double.\<close>

definition ramp_int :: "int \<Rightarrow> int \<Rightarrow> nat \<Rightarrow> int" where
  "ramp_int c t i = \<lfloor>fl (of_int c + fl (of_int (t - c) * fl (of_nat i / 10))) + 1 / 2\<rfloor>"

definition setBrightnessSmooth :: "'w env \<Rightarrow> string option \<Rightarrow> number \<Rightarrow> ('w, unit) task" where
  "setBrightnessSmooth env device0 brightness =
     await (if \<not> truthy device0 then findCarThing env else return device0) (\<lambda>device.
     if \<not> truthy device then throw no_device
     else
       await (getAdbExecutable env) (\<lambda>adb.
       await (getBrightness env device False) (\<lambda>currentValue.
       let targetValue = Math_max (formatBrightness brightness) (Num 1) in
       ramp env adb (ToString device) currentValue targetValue 1)))"

text \<open>\<^verbatim>\<open>restore\<close>, lines 193 to 206.\<close>

definition restore :: "'w env \<Rightarrow> string option \<Rightarrow> bool \<Rightarrow> ('w, unit) task" where
  "restore env device0 restart =
     await (if \<not> truthy device0 then findCarThing env else return device0) (\<lambda>device.
     if \<not> truthy device then throw no_device
     else
       await (getAdbExecutable env) (\<lambda>adb.
       await (log_msg ''Restoring original app...'' ''adb'' (Some DEBUG)) (\<lambda>_.
       await (execAsync env
                (adb @ '' -s '' @ ToString device @ '' shell ''
                   @ quoted (''mountpoint /usr/share/qt-superbird-app/webapp/ > /dev/null ''
                               @ ''&& umount /usr/share/qt-superbird-app/webapp''))) (\<lambda>_.
       await (execAsync env
                (adb @ '' -s '' @ ToString device @ '' shell '' @ quoted ''rm -rf /tmp/webapp''))
         (\<lambda>_.
       await (log_msg ''Restored original app!'' ''adb'' None) (\<lambda>_.
       if restart then restartChromium env device else return ()))))))"

text \<open>\<^verbatim>\<open>installApp\<close>, lines 208 to 234.\<close>

definition read_password :: "'w env \<Rightarrow> ('w, string) task" where
  "read_password env s = (Inr (getSocketPassword env (world s)), s)"

definition installApp :: "'w env \<Rightarrow> string option \<Rightarrow> ('w, unit) task" where
  "installApp env device0 =
     await (if \<not> truthy device0 then findCarThing env else return device0) (\<lambda>device.
     if \<not> truthy device then throw no_device
     else
       await (host (getWebAppDir env)) (\<lambda>appDir.
       await (read_password env) (\<lambda>WS_PASSWORD.
       await (restore env device False) (\<lambda>_.
       await (getAdbExecutable env) (\<lambda>adb.
       await (log_msg ''Installing app...'' ''adb'' (Some DEBUG)) (\<lambda>_.
       await (execAsync env
                (adb @ '' -s '' @ ToString device @ '' push '' @ appDir @ '' /tmp/webapp''))
         (\<lambda>_.
       await (execAsync env
                (adb @ '' -s '' @ ToString device @ '' shell ''
                   @ quoted (''echo '' @ WS_PASSWORD @ '' > /tmp/webapp/ws-password''))) (\<lambda>_.
       await (execAsync env
                (adb @ '' -s '' @ ToString device @ '' shell ''
                   @ quoted ''touch /tmp/webapp/.glancething'')) (\<lambda>_.
       await (execAsync env
                (adb @ '' -s '' @ ToString device @ '' shell ''
                   @ quoted ''mount --bind /tmp/webapp /usr/share/qt-superbird-app/webapp''))
         (\<lambda>_.
       await (log_msg ''Installed app!'' ''adb'' None) (\<lambda>_.
       restartChromium env device)))))))))))"

text \<open>\<^verbatim>\<open>checkInstalledApp\<close>, lines 236 to 247.\<close>

definition checkInstalledApp :: "'w env \<Rightarrow> string option \<Rightarrow> ('w, bool) task" where
  "checkInstalledApp env device0 =
     await (if \<not> truthy device0 then findCarThing env else return device0) (\<lambda>device.
     if \<not> truthy device then throw no_device
     else
       await (getAdbExecutable env) (\<lambda>adb.
       await (execAsync env
                (adb @ '' -s '' @ ToString device
                   @ '' shell ls /usr/share/qt-superbird-app/webapp/.glancething'')) (\<lambda>res.
       case res of
         None \<Rightarrow> throw TypeError
       | Some out \<Rightarrow> return (\<not> str_includes out ''No such file or directory''))))"

text \<open>\<^verbatim>\<open>forwardSocketServer\<close>, lines 249 to 259.  The port comes from the server as the
  text the template literal prints.\<close>

definition forwardSocketServer :: "'w env \<Rightarrow> string option \<Rightarrow> ('w, unit) task" where
  "forwardSocketServer env device0 =
     await (if \<not> truthy device0 then findCarThing env else return device0) (\<lambda>device.
     if \<not> truthy device then throw no_device
     else
       await (getAdbExecutable env) (\<lambda>adb.
       await (host (getServerPort env)) (\<lambda>port.
       await (execAsync env
                (adb @ '' -s '' @ ToString device @ '' reverse tcp:1337 tcp:'' @ port)) (\<lambda>_.
       log_msg ''Forwarded socket server!'' ''adb'' (Some DEBUG)))))"

section \<open>The device policy of an operation\<close>

text \<open>
  \<open>findCarThing\<close> opens with the log line \<^verbatim>\<open>Finding CarThing...\<close>, and no other line of the
  module has this message: the number of these lines in the log is the number of
  discoveries a call has started.  A task is \<open>quiet\<close> when it starts no discovery and
  does not raise the no-device error.

  \<open>device_policy env f\<close> says how the operation \<open>f\<close> treats its device argument.  Given
  an identifier that is neither null nor empty, it starts no discovery and does not raise
  the no-device error.  Given null or the empty string, it starts exactly one discovery,
  raises the no-device error exactly when \<open>findCarThing\<close> returns null or the empty string,
  and otherwise goes on as if it had been given what \<open>findCarThing\<close> returned.
\<close>

definition discoveries :: "'w state \<Rightarrow> nat" where
  "discoveries s = length (filter (\<lambda>line. fst line = ''Finding CarThing...'') (logs s))"

definition quiet :: "('w, 'a) task \<Rightarrow> bool" where
  "quiet m = (\<forall>s. discoveries (snd (m s)) = discoveries s \<and> fst (m s) \<noteq> Inl no_device)"

definition device_policy :: "'w env \<Rightarrow> (string option \<Rightarrow> ('w, 'a) task) \<Rightarrow> bool" where
  "device_policy env f =
     (\<forall>device s.
        (truthy device \<longrightarrow>
           discoveries (snd (f device s)) = discoveries s
           \<and> fst (f device s) \<noteq> Inl no_device)
        \<and> (\<not> truthy device \<longrightarrow>
           discoveries (snd (f device s)) = discoveries s + 1
           \<and> (fst (f device s) = Inl no_device
                \<longleftrightarrow> (\<exists>found. fst (findCarThing env s) = Inr found \<and> \<not> truthy found))
           \<and> (\<forall>found s'. findCarThing env s = (Inr found, s') \<and> truthy found
                  \<longrightarrow> f device s = f found s')))"

section \<open>A simulated host and device\<close>

text \<open>
  A concrete instance of the parameters, for running the module on examples: a Linux host
  whose bridge answers from a fixed script, for the one device \<open>X\<close>.  The record holds
  what the examples vary: whether \<^verbatim>\<open>adb\<close> is on the search path, which files exist, the
  status of the download, and the answers to the device list, to the listing of the stock
  web-app directory, to the listing of the install marker and to the read of the
  backlight register.
\<close>

record sim =
  adb_installed :: bool
  files :: "string list"
  http_status :: nat
  attached :: outcome
  webapp :: outcome
  marker :: outcome
  backlight :: outcome

definition sim_run :: "string \<Rightarrow> sim \<Rightarrow> outcome \<times> sim" where
  "sim_run cmd w =
     (if cmd = ''adb version'' then
        (if adb_installed w then Stdout ''Android Debug Bridge version 1.0.41'' else Rejects, w)
      else if prefix ''tar -xf '' cmd then
        (Stdout [], w\<lparr>files := ''/data/platform-tools/adb'' # files w\<rparr>)
      else if cmd = ''adb devices'' then (attached w, w)
      else if cmd = ''adb -s X shell ls /usr/share/qt-superbird-app/webapp/.glancething'' then
        (marker w, w)
      else if cmd = ''adb -s X shell ls /usr/share/qt-superbird-app/webapp/'' then
        (webapp w, w)
      else if cmd = ''adb -s X shell ''
                      @ quoted ''cat /sys/devices/platform/backlight/backlight/aml-bl/brightness''
      then (backlight w, w)
      else (Stdout [], w))"

definition sim_env :: "sim env" where
  "sim_env =
     \<lparr>run = sim_run,
      platform = ''linux'',
      downloadURL = ''https://dl.google.com/android/repository/platform-tools-latest-linux.zip'',
      executable = ''adb'',
      getPath = (\<lambda>name. if name = ''userData'' then ''/data'' else ''/tmp''),
      path_join = (\<lambda>a b. a @ ''/'' @ b),
      existsSync = (\<lambda>path w. path \<in> set (files w)),
      unlinkSync = (\<lambda>path w. (Some (), w\<lparr>files := removeAll path (files w)\<rparr>)),
      axios_get = (\<lambda>url w. (Some (http_status w), w)),
      pipe_to_file = (\<lambda>path w. (Some (), w\<lparr>files := path # files w\<rparr>)),
      getSocketPassword = (\<lambda>w. ''secret''),
      getServerPort = (\<lambda>w. (Some ''1338'', w)),
      getWebAppDir = (\<lambda>w. (Some ''/opt/app/webapp'', w))\<rparr>"

text \<open>A host with \<^verbatim>\<open>adb\<close> on the search path and one valid device \<open>X\<close> attached, its
  backlight register at 100, and the fresh state of a call on a host.\<close>

definition sim_host :: sim where
  "sim_host =
     \<lparr>adb_installed = True, files = [], http_status = 200,
      attached = Stdout (''List of devices attached'' @ [LF] @ ''X'' @ [TAB] @ ''device'' @ [LF]),
      webapp = Stdout (''index.html'' @ [LF] @ ''static'' @ [LF]),
      marker = Stdout ''/usr/share/qt-superbird-app/webapp/.glancething'',
      backlight = Stdout (''100'' @ [LF])\<rparr>"

definition start :: "'w \<Rightarrow> 'w state" where
  "start w = \<lparr>world = w, cmds = [], requests = [], logs = []\<rparr>"

section \<open>Rounding to a double\<close>

lemma expo_bounds:
  assumes "0 < x"
  shows "2 powi (expo x) \<le> x \<and> x < 2 powi (expo x + 1)"
proof -
  obtain p q where pq: "quotient_of x = (p, q)" by (cases "quotient_of x")
  have q: "0 < q" using pq quotient_of_denom_pos by blast
  have x: "x = of_int p / of_int q" using pq quotient_of_div by blast
  have p: "0 < p" using assms q x by (simp add: zero_less_divide_iff)
  define k where "k = bitlen p - bitlen q"
  from bitlen_bounds[OF p] bitlen_bounds[OF q]
  have bp: "2 ^ nat (bitlen p - 1) \<le> p" "p < 2 ^ nat (bitlen p)"
   and bq: "2 ^ nat (bitlen q - 1) \<le> q" "q < 2 ^ nat (bitlen q)" by auto
  have b1: "1 \<le> bitlen p" "1 \<le> bitlen q" using p q by (auto simp: bitlen_alt_def)
  have P1: "(2::rat) powi (bitlen p - 1) \<le> of_int p"
    using bp(1) b1 by (simp add: power_int_def)
  have P2: "of_int p < (2::rat) powi (bitlen p)"
    using bp(2) b1 by (simp add: power_int_def)
  have Q1: "(2::rat) powi (bitlen q - 1) \<le> of_int q"
    using bq(1) b1 by (simp add: power_int_def)
  have Q2: "of_int q < (2::rat) powi (bitlen q)"
    using bq(2) b1 by (simp add: power_int_def)
  have up: "x < 2 powi (k + 1)"
  proof -
    have "(2::rat) powi (k + 1) * 2 powi (bitlen q - 1) = 2 powi (bitlen p)"
      by (simp add: k_def flip: power_int_add)
    moreover have "(2::rat) powi (k + 1) * 2 powi (bitlen q - 1) \<le> 2 powi (k + 1) * of_int q"
      using Q1 by (intro mult_left_mono) auto
    ultimately have "of_int p < (2::rat) powi (k + 1) * of_int q"
      using P2 by linarith
    then show ?thesis using q by (simp add: x pos_divide_less_eq)
  qed
  have lo: "2 powi (k - 1) < x"
  proof -
    have "(2::rat) powi (k - 1) * 2 powi (bitlen q) = 2 powi (bitlen p - 1)"
      by (simp add: k_def flip: power_int_add)
    moreover have "(2::rat) powi (k - 1) * of_int q < 2 powi (k - 1) * 2 powi (bitlen q)"
      using Q2 by (intro mult_strict_left_mono) auto
    ultimately have "(2::rat) powi (k - 1) * of_int q < of_int p"
      using P1 by linarith
    then show ?thesis using q by (simp add: x pos_less_divide_eq)
  qed
  show ?thesis
    using up lo pq unfolding expo_def k_def[symmetric] Let_def
    by (auto simp: k_def)
qed

lemma pow2_less_cancel: "(2::rat) powi m < 2 powi n \<Longrightarrow> m < n"
  using power_int_increasing[of n m "2::rat"] by (cases "m < n") auto

lemma expo_unique:
  assumes "2 powi e \<le> x" "x < 2 powi (e + 1)"
  shows "expo x = e"
proof -
  have "(0::rat) < 2 powi e" by simp
  then have x: "0 < x" using assms(1) by linarith
  from expo_bounds[OF x] have a: "2 powi (expo x) \<le> x" "x < 2 powi (expo x + 1)" by auto
  have "(2::rat) powi e < 2 powi (expo x + 1)" using assms(1) a(2) by linarith
  then have 1: "e < expo x + 1" by (rule pow2_less_cancel)
  have "(2::rat) powi (expo x) < 2 powi (e + 1)" using assms(2) a(1) by linarith
  then have 2: "expo x < e + 1" by (rule pow2_less_cancel)
  show ?thesis using 1 2 by linarith
qed

lemma expo_mono:
  assumes "0 < x" "x \<le> y"
  shows "expo x \<le> expo y"
proof -
  have y: "0 < y" using assms by linarith
  from expo_bounds[OF assms(1)] expo_bounds[OF y]
  have "(2::rat) powi (expo x) < 2 powi (expo y + 1)" using assms(2) by linarith
  then have "expo x < expo y + 1" by (rule pow2_less_cancel)
  then show ?thesis by simp
qed

lemma rne_of_int: "rne (of_int n) = n"
  by (simp add: rne_def)

lemma rne_mono:
  assumes "x \<le> y"
  shows "rne x \<le> rne y"
proof (cases "\<lfloor>x\<rfloor> = \<lfloor>y\<rfloor>")
  case True
  then show ?thesis using assms by (auto simp: rne_def Let_def)
next
  case False
  then have "\<lfloor>x\<rfloor> + 1 \<le> \<lfloor>y\<rfloor>" using assms floor_mono[OF assms] by linarith
  moreover have "rne x \<le> \<lfloor>x\<rfloor> + 1" by (auto simp: rne_def Let_def)
  moreover have "\<lfloor>y\<rfloor> \<le> rne y" by (auto simp: rne_def Let_def)
  ultimately show ?thesis by linarith
qed

lemma rne_error: "\<bar>of_int (rne x) - x\<bar> \<le> 1 / 2"
proof -
  have "of_int \<lfloor>x\<rfloor> \<le> x" "x < of_int \<lfloor>x\<rfloor> + 1" by linarith+
  then show ?thesis unfolding rne_def Let_def by (simp add: abs_if) linarith
qed

lemma ulp_pos: "0 < ulp x"
  by (simp add: ulp_def)

lemma fl_neg: "fl (- x) = - fl x"
  by (simp add: fl_def sgn_if)

lemma fl_zero: "fl 0 = 0"
  by (simp add: fl_def)

lemma fl_pos_eq: "0 < x \<Longrightarrow> fl x = of_int (rne (x / ulp x)) * ulp x"
  by (simp add: fl_def)

lemma fl_nonneg:
  assumes "0 \<le> x"
  shows "0 \<le> fl x"
proof (cases "x = 0")
  case True
  then show ?thesis by (simp add: fl_zero)
next
  case False
  then have x: "0 < x" using assms by simp
  have "rne 0 \<le> rne (x / ulp x)" using x ulp_pos[of x] by (intro rne_mono) simp
  then have "0 \<le> rne (x / ulp x)" by (simp add: rne_def)
  then show ?thesis using x ulp_pos[of x] by (simp add: fl_pos_eq)
qed

lemma fl_binade:
  assumes "0 < x" and e: "e = max (expo x) (- 1022)"
  shows "fl x \<le> 2 powi (e + 1)" and "- 1022 \<le> expo x \<Longrightarrow> 2 powi e \<le> fl x"
proof -
  have u: "ulp x = 2 powi (e - 52)" by (simp add: ulp_def e)
  from expo_bounds[OF assms(1)] have b: "2 powi (expo x) \<le> x" "x < 2 powi (expo x + 1)" by auto
  have "x < 2 powi (e + 1)"
    using b(2) power_int_increasing[of "expo x + 1" "e + 1" "2::rat"] e by auto
  then have "x / ulp x \<le> 2 powi (e + 1) / 2 powi (e - 52)" unfolding u
    by (intro divide_right_mono) auto
  also have "\<dots> = 2 powi 53" by (simp flip: power_int_diff)
  also have "\<dots> = of_int (2 ^ 53)" by (simp add: power_int_def)
  finally have "rne (x / ulp x) \<le> 2 ^ 53" using rne_mono rne_of_int by metis
  then have "of_int (rne (x / ulp x)) * ulp x \<le> of_int (2 ^ 53) * ulp x"
    using ulp_pos[of x] by (simp del: of_int_power of_int_numeral)
  also have "\<dots> = 2 powi (e + 1)"
    using power_int_add[of "2::rat" 53 "e - 52"] by (simp add: u add.commute)
  finally show "fl x \<le> 2 powi (e + 1)" using assms(1) by (simp add: fl_pos_eq)
  assume "- 1022 \<le> expo x"
  then have ee: "e = expo x" using e by simp
  have "2 powi e / 2 powi (e - 52) \<le> x / ulp x" unfolding u using b(1) ee
    by (intro divide_right_mono) auto
  moreover have "2 powi e / 2 powi (e - 52) = (2::rat) powi 52" by (simp flip: power_int_diff)
  moreover have "(2::rat) powi 52 = of_int (2 ^ 52)" by (simp add: power_int_def)
  ultimately have "2 ^ 52 \<le> rne (x / ulp x)" using rne_mono rne_of_int by metis
  then have "of_int (2 ^ 52) * ulp x \<le> of_int (rne (x / ulp x)) * ulp x"
    using ulp_pos[of x] by (simp del: of_int_power of_int_numeral)
  moreover have "of_int (2 ^ 52) * ulp x = (2::rat) powi e"
    using power_int_add[of "2::rat" 52 "e - 52"] by (simp add: u)
  ultimately show "2 powi e \<le> fl x" using assms(1) by (simp add: fl_pos_eq)
qed

lemma fl_mono_pos:
  assumes "0 < x" "x \<le> y"
  shows "fl x \<le> fl y"
proof -
  have y: "0 < y" using assms by linarith
  define ex where "ex = max (expo x) (- 1022)"
  define ey where "ey = max (expo y) (- 1022)"
  have le: "ex \<le> ey" using expo_mono[OF assms] by (simp add: ex_def ey_def)
  show ?thesis
  proof (cases "ex = ey")
    case True
    then have u: "ulp x = ulp y" by (simp add: ulp_def ex_def ey_def)
    have "x / ulp y \<le> y / ulp y" using assms(2) ulp_pos[of y] by (intro divide_right_mono) auto
    then have "rne (x / ulp y) \<le> rne (y / ulp y)" by (rule rne_mono)
    then show ?thesis using assms(1) y ulp_pos[of y] by (simp add: fl_pos_eq u)
  next
    case False
    then have lt: "ex + 1 \<le> ey" using le by simp
    then have "- 1022 \<le> expo y" by (auto simp: ex_def ey_def)
    from fl_binade(2)[OF y ey_def this] have "2 powi ey \<le> fl y" .
    moreover from fl_binade(1)[OF assms(1) ex_def] have "fl x \<le> 2 powi (ex + 1)" .
    moreover have "(2::rat) powi (ex + 1) \<le> 2 powi ey" using lt by (intro power_int_increasing) auto
    ultimately show ?thesis by linarith
  qed
qed

lemma fl_mono:
  assumes "x \<le> y"
  shows "fl x \<le> fl y"
proof -
  consider "0 < x" | "x \<le> 0" "0 \<le> y" | "y < 0" by linarith
  then show ?thesis
  proof cases
    case 1
    then show ?thesis using assms by (rule fl_mono_pos)
  next
    case 2
    have "fl x \<le> 0" using fl_nonneg[of "- x"] 2(1) by (simp add: fl_neg)
    moreover have "0 \<le> fl y" using 2(2) by (rule fl_nonneg)
    ultimately show ?thesis by linarith
  next
    case 3
    have "fl (- y) \<le> fl (- x)" using 3 assms by (intro fl_mono_pos) auto
    then show ?thesis by (simp add: fl_neg)
  qed
qed

lemma fl_exact:
  assumes "0 < x" "x / ulp x = of_int m"
  shows "fl x = x"
proof -
  have "of_int (rne (x / ulp x)) * ulp x = (x / ulp x) * ulp x"
    by (simp only: assms(2) rne_of_int)
  then show ?thesis using assms(1) ulp_pos[of x] by (simp add: fl_pos_eq)
qed

lemma fl_of_int_pos:
  assumes "0 < n" "n \<le> 2 ^ 53"
  shows "fl (of_int n) = of_int n"
proof (cases "n = 2 ^ 53")
  case True
  have "expo (of_int n) = 53"
    by (rule expo_unique) (simp_all add: True power_int_def)
  then have "ulp (of_int n) = 2" by (simp add: ulp_def)
  then have "of_int n / ulp (of_int n) = of_int (2 ^ 52)" by (simp add: True)
  then show ?thesis using assms(1) by (intro fl_exact[where m = "2 ^ 52"]) auto
next
  case False
  define x :: rat where "x = of_int n"
  have x: "0 < x" "1 \<le> x" "x < 2 ^ 53" using assms False by (simp_all add: x_def)
  from expo_bounds[OF x(1)] have b: "2 powi (expo x) \<le> x" "x < 2 powi (expo x + 1)" by auto
  have "(2::rat) powi 0 < 2 powi (expo x + 1)" using b(2) x(2) by simp
  then have e0: "0 \<le> expo x" using pow2_less_cancel by fastforce
  have "(2::rat) powi (expo x) < 2 powi 53" using b(1) x(3) by (simp add: power_int_def)
  then have e1: "expo x \<le> 52" using pow2_less_cancel by fastforce
  have u: "ulp x = 2 powi (expo x - 52)" using e0 by (simp add: ulp_def)
  have "x / ulp x = x * 2 powi (52 - expo x)"
    by (simp add: u power_int_diff)
  also have "\<dots> = of_int (n * 2 ^ nat (52 - expo x))"
    using e1 by (simp add: x_def power_int_def)
  finally have "fl x = x" by (rule fl_exact[OF x(1)])
  then show ?thesis by (simp add: x_def)
qed

lemma fl_of_int:
  assumes "\<bar>n\<bar> \<le> 2 ^ 53"
  shows "fl (of_int n) = of_int n"
proof -
  consider "n = 0" | "0 < n" | "n < 0" by linarith
  then show ?thesis
  proof cases
    case 1
    then show ?thesis by (simp add: fl_zero)
  next
    case 2
    then show ?thesis using assms by (intro fl_of_int_pos) auto
  next
    case 3
    then have "fl (of_int (- n)) = of_int (- n)" using assms by (intro fl_of_int_pos) auto
    then show ?thesis by (simp add: fl_neg)
  qed
qed

lemma fl_error_pos:
  assumes "0 < a" "a < 2 powi (k + 1)" "- 1022 \<le> k"
  shows "\<bar>fl a - a\<bar> \<le> 2 powi (k - 53)"
proof -
  from expo_bounds[OF assms(1)] assms(2) have "(2::rat) powi (expo a) < 2 powi (k + 1)"
    by linarith
  then have "expo a \<le> k" using pow2_less_cancel by fastforce
  then have "max (expo a) (- 1022) - 52 \<le> k - 52" using assms(3) by simp
  then have u: "ulp a \<le> 2 powi (k - 52)"
    unfolding ulp_def by (intro power_int_increasing) auto
  have "fl a - a = (of_int (rne (a / ulp a)) - a / ulp a) * ulp a"
    using ulp_pos[of a] assms(1) by (simp add: fl_pos_eq left_diff_distrib)
  then have "\<bar>fl a - a\<bar> = \<bar>of_int (rne (a / ulp a)) - a / ulp a\<bar> * ulp a"
    using ulp_pos[of a] by (simp add: abs_mult)
  also have "\<dots> \<le> (1 / 2) * ulp a"
    using rne_error[of "a / ulp a"] ulp_pos[of a] by (intro mult_right_mono) auto
  also have "\<dots> \<le> (1 / 2) * 2 powi (k - 52)" using u by simp
  also have "\<dots> = 2 powi (k - 53)"
    using power_int_add[of "2::rat" "k - 53" 1] by simp
  finally show ?thesis .
qed

lemma fl_error:
  assumes "\<bar>x\<bar> < 2 powi (k + 1)" "- 1022 \<le> k"
  shows "\<bar>fl x - x\<bar> \<le> 2 powi (k - 53)"
proof -
  consider "x = 0" | "0 < x" | "x < 0" by linarith
  then show ?thesis
  proof cases
    case 1
    then show ?thesis by (simp add: fl_zero)
  next
    case 2
    then show ?thesis using assms by (intro fl_error_pos) auto
  next
    case 3
    then have "\<bar>fl (- x) - (- x)\<bar> \<le> 2 powi (k - 53)" using assms by (intro fl_error_pos) auto
    then show ?thesis by (simp add: fl_neg abs_if split: if_splits)
  qed
qed

text \<open>Integers up to \<open>2 ^ 53\<close> are doubles, so rounding keeps a value between two of
  them between them, and nothing in that range overflows.\<close>

lemma fl_between:
  assumes "of_int m \<le> x" "x \<le> of_int n" "\<bar>m\<bar> \<le> 2 ^ 53" "\<bar>n\<bar> \<le> 2 ^ 53"
  shows "of_int m \<le> fl x \<and> fl x \<le> of_int n"
  using fl_mono[OF assms(1)] fl_mono[OF assms(2)] fl_of_int[OF assms(3)] fl_of_int[OF assms(4)]
  by simp

lemma double_of_small:
  assumes "\<bar>x\<bar> \<le> 2 ^ 53"
  shows "double_of x = Num (fl x)"
proof -
  have "of_int (- (2 ^ 53)) \<le> x" "x \<le> of_int (2 ^ 53)" using assms by (simp_all add: abs_le_iff)
  from fl_between[OF this] have "- (2 ^ 53) \<le> fl x" "fl x \<le> 2 ^ 53" by simp_all
  then show ?thesis by (simp add: double_of_def Let_def)
qed

lemma double_of_int:
  assumes "\<bar>n\<bar> \<le> 2 ^ 53"
  shows "double_of (of_int n) = Num (of_int n)"
proof -
  have "\<bar>(of_int n :: rat)\<bar> \<le> 2 ^ 53" using assms
    by (metis of_int_abs of_int_le_iff of_int_numeral of_int_power)
  then show ?thesis by (simp add: double_of_small fl_of_int[OF assms])
qed

lemma double_of_numeral:
  assumes "(numeral k :: int) \<le> 2 ^ 53"
  shows "double_of (numeral k) = Num (numeral k)"
  using double_of_int[of "numeral k"] assms by simp

lemma double_of_zero: "double_of 0 = Num 0"
  using double_of_int[of 0] by simp

lemma double_of_one: "double_of 1 = Num 1"
  using double_of_int[of 1] by simp

text \<open>Reading a decimal text: the definitions that a concrete \<open>parseInt\<close> unfolds.\<close>

lemmas parseInt_eval =
  parseInt_def is_space_def digit_value_def Let_def double_of_numeral double_of_zero
  double_of_one

section \<open>The decimal text of a number reads back as the number\<close>

lemma of_char_dec: "d < 10 \<Longrightarrow> of_char (char_of (48 + d :: nat)) = 48 + d"
  by (simp add: of_char_of)

lemma is_dec_props:
  assumes "is_dec c"
  shows "digit_value c < 10" "\<not> is_space c" "c \<noteq> CHR ''+''" "c \<noteq> CHR ''-''"
    "c \<noteq> CHR ''x''" "c \<noteq> CHR ''X''"
proof -
  from assms obtain d :: nat where d: "d < 10" "c = char_of (48 + d)" unfolding is_dec_def by blast
  have n: "(of_char c :: nat) = 48 + d" using d by (simp add: of_char_dec)
  show "digit_value c < 10" using n d(1) by (simp add: digit_value_def Let_def)
  show "\<not> is_space c" "c \<noteq> CHR ''+''" "c \<noteq> CHR ''-''" "c \<noteq> CHR ''x''" "c \<noteq> CHR ''X''"
    using n d(1) by (auto simp: is_space_def)
qed

lemma digit_value_dec: "d < 10 \<Longrightarrow> digit_value (char_of (48 + d :: nat)) = d"
  by (simp add: digit_value_def Let_def of_char_dec)

lemma digits_dec: "digits n \<noteq> [] \<and> (\<forall>c \<in> set (digits n). is_dec c)"
proof (induction n rule: digits.induct)
  case (1 n)
  show ?case
  proof (cases "n < 10")
    case True
    then show ?thesis by (subst (1 2) digits.simps) (auto simp: is_dec_def)
  next
    case False
    have "is_dec (char_of (48 + n mod 10))" unfolding is_dec_def
      by (intro exI[of _ "n mod 10"]) simp
    then show ?thesis using 1 False by (subst (1 2) digits.simps) auto
  qed
qed

lemma digits_value: "foldl (\<lambda>a c. a * 10 + digit_value c) 0 (digits n) = n"
proof (induction n rule: digits.induct)
  case (1 n)
  show ?case
  proof (cases "n < 10")
    case True
    then show ?thesis by (subst digits.simps) (simp add: digit_value_dec)
  next
    case False
    then show ?thesis using 1 by (subst digits.simps) (simp add: digit_value_dec)
  qed
qed

lemma parseInt_digits:
  assumes "n \<le> 2 ^ 53"
  shows "parseInt (digits n) = Num (of_nat n)"
proof -
  obtain c cs where s: "digits n = c # cs" using digits_dec[of n] by (cases "digits n") auto
  have all: "\<forall>c \<in> set (digits n). is_dec c" using digits_dec by blast
  then have c: "is_dec c" using s by simp
  have 1: "dropWhile is_space (digits n) = digits n"
    using is_dec_props(2)[OF c] s by simp
  have 2: "\<not> prefix ''0x'' (digits n)" "\<not> prefix ''0X'' (digits n)"
    using all s is_dec_props(5,6) by (cases cs; auto)+
  have 3: "takeWhile (\<lambda>c. digit_value c < 10) (digits n) = digits n"
    using all is_dec_props(1) by (intro takeWhile_eq_all_conv[THEN iffD2]) auto
  have neg: "(case digits n of [] \<Rightarrow> False | c # _ \<Rightarrow> c = CHR ''-'') = False"
    using s is_dec_props(4)[OF c] by simp
  have s1: "(case digits n of [] \<Rightarrow> digits n
             | c # r \<Rightarrow> if c = CHR ''+'' \<or> c = CHR ''-'' then r else digits n) = digits n"
    using s is_dec_props(3,4)[OF c] by simp
  have ne: "digits n \<noteq> []" using s by simp
  have "double_of (of_nat n) = Num (of_nat n)"
    using double_of_int[of "int n"] assms by simp
  then show ?thesis
    by (simp add: parseInt_def Let_def 1 neg s1 2 3 ne digits_value)
qed

section \<open>The brightness transform is its own inverse on raw values\<close>

lemma parseBrightness_value:
  assumes "parseInt res = Num (of_int raw)" "0 \<le> raw" "raw \<le> 255"
  shows "parseBrightness (Some res) = Num (fl (1 - fl (of_int raw / 255)))"
   and "0 \<le> fl (1 - fl (of_int raw / 255))" "fl (1 - fl (of_int raw / 255)) \<le> 1"
   and "\<bar>fl (1 - fl (of_int raw / 255)) - (1 - of_int raw / 255)\<bar> \<le> 2 powi (- 52)"
proof -
  define x :: rat where "x = of_int raw / 255"
  have x: "0 \<le> x" "x \<le> 1" using assms(2,3) by (simp_all add: x_def)
  have q: "0 \<le> fl x" "fl x \<le> 1"
    using fl_between[of 0 x 1] x by simp_all
  have p: "0 \<le> fl (1 - fl x)" "fl (1 - fl x) \<le> 1"
    using fl_between[of 0 "1 - fl x" 1] q by simp_all
  have e1: "\<bar>fl x - x\<bar> \<le> 2 powi (- 53)"
    using fl_error[of x 0] x by simp
  have e2: "\<bar>fl (1 - fl x) - (1 - fl x)\<bar> \<le> 2 powi (- 53)"
    using fl_error[of "1 - fl x" 0] q by simp
  have d1: "double_of x = Num (fl x)" using x by (intro double_of_small) simp
  have d2: "double_of (1 - fl x) = Num (fl (1 - fl x))" using q by (intro double_of_small) simp
  show "parseBrightness (Some res) = Num (fl (1 - fl (of_int raw / 255)))"
    using d1 d2 by (simp add: parseBrightness_def ToString_def assms(1) js_sub_def x_def)
  show "0 \<le> fl (1 - fl (of_int raw / 255))" "fl (1 - fl (of_int raw / 255)) \<le> 1"
    using p by (simp_all add: x_def)
  have "(2::rat) powi (- 53) + 2 powi (- 53) = 2 powi (- 52)" by simp
  moreover have "\<bar>fl (1 - fl x) - (1 - x)\<bar> \<le> \<bar>fl x - x\<bar> + \<bar>fl (1 - fl x) - (1 - fl x)\<bar>"
    by linarith
  ultimately have "\<bar>fl (1 - fl x) - (1 - x)\<bar> \<le> 2 powi (- 52)"
    using e1 e2 by linarith
  then show "\<bar>fl (1 - fl (of_int raw / 255)) - (1 - of_int raw / 255)\<bar> \<le> 2 powi (- 52)"
    by (simp add: x_def)
qed

lemma formatBrightness_value:
  assumes "0 \<le> p" "p \<le> 1"
  shows "formatBrightness (Num p) = Num (255 - of_int \<lfloor>fl (p * 255) + 1 / 2\<rfloor>)"
    and "0 \<le> \<lfloor>fl (p * 255) + 1 / 2\<rfloor>" "\<lfloor>fl (p * 255) + 1 / 2\<rfloor> \<le> 255"
proof -
  have y: "0 \<le> fl (p * 255)" "fl (p * 255) \<le> 255"
    using fl_between[of 0 "p * 255" 255] assms by simp_all
  show m: "0 \<le> \<lfloor>fl (p * 255) + 1 / 2\<rfloor>" "\<lfloor>fl (p * 255) + 1 / 2\<rfloor> \<le> 255"
    using y by (simp_all add: le_floor_iff floor_le_iff)
  have d1: "double_of (p * 255) = Num (fl (p * 255))" using assms by (intro double_of_small) simp
  define k where "k = \<lfloor>fl (p * 255) + 1 / 2\<rfloor>"
  have "\<bar>255 - k\<bar> \<le> 2 ^ 53" using m unfolding k_def[symmetric] by simp
  then have "double_of (of_int (255 - k)) = Num (of_int (255 - k))"
    by (rule double_of_int)
  then show "formatBrightness (Num p) = Num (255 - of_int \<lfloor>fl (p * 255) + 1 / 2\<rfloor>)"
    using d1 by (simp add: formatBrightness_def js_sub_def k_def)
qed

lemma brightness_round_trip_exact:
  assumes "parseInt res = Num (of_int raw)" "0 \<le> raw" "raw \<le> 255"
  shows "formatBrightness (parseBrightness (Some res)) = Num (of_int raw)"
proof -
  define p where "p = fl (1 - fl (of_int raw / 255))"
  note pb = parseBrightness_value[OF assms, folded p_def]
  have e3: "\<bar>fl (p * 255) - p * 255\<bar> \<le> 2 powi (- 46)"
    using fl_error[of "p * 255" 7] pb(2,3) by simp
  define r :: rat where "r = of_int raw"
  have small: "(2::rat) powi (- 46) + 255 * 2 powi (- 52) < 1 / 2" by simp
  have "\<bar>p - (1 - r / 255)\<bar> \<le> 2 powi (- 52)" using pb(4) by (simp add: r_def)
  then have "\<bar>fl (p * 255) - (255 - r)\<bar> \<le> 2 powi (- 46) + 255 * 2 powi (- 52)"
    using e3 by linarith
  then have "255 - r \<le> fl (p * 255) + 1 / 2" "fl (p * 255) + 1 / 2 < 255 - r + 1"
    using small by linarith+
  then have "of_int (255 - raw) \<le> fl (p * 255) + 1 / 2" "fl (p * 255) + 1 / 2 < of_int (255 - raw) + 1"
    by (simp_all add: r_def)
  then have "\<lfloor>fl (p * 255) + 1 / 2\<rfloor> = 255 - raw" by (simp add: floor_unique)
  then show ?thesis using formatBrightness_value(1)[OF pb(2,3)] by (simp add: pb(1))
qed

text \<open>
  Claim C2.  For every integer \<open>raw\<close> from 0 to 255, given as its decimal text,
  \<open>formatBrightness (parseBrightness raw)\<close> is an integer that differs from \<open>raw\<close> by at
  most 1, and so it is for any text that \<^verbatim>\<open>parseInt\<close> reads as \<open>raw\<close>, such as the text
  of the register with its line feed; \<open>parseBrightness\<close> of 0 is 1 and of 255 is 0.
\<close>

theorem brightness_round_trip:
  "(\<forall>raw. raw \<le> 255 \<longrightarrow>
      (\<exists>r. formatBrightness (parseBrightness (Some (digits raw))) = Num (of_int r)
           \<and> \<bar>r - int raw\<bar> \<le> 1))
   \<and> (\<forall>raw res. 0 \<le> raw \<and> raw \<le> 255 \<and> parseInt res = Num (of_int raw) \<longrightarrow>
      (\<exists>r. formatBrightness (parseBrightness (Some res)) = Num (of_int r) \<and> \<bar>r - raw\<bar> \<le> 1))
   \<and> parseBrightness (Some ''0'') = Num 1
   \<and> parseBrightness (Some ''255'') = Num 0"
proof (intro conjI allI impI)
  fix raw :: nat
  assume a: "raw \<le> 255"
  then have "parseInt (digits raw) = Num (of_int (int raw))"
    using parseInt_digits[of raw] by simp
  then have "formatBrightness (parseBrightness (Some (digits raw))) = Num (of_int (int raw))"
    using a by (intro brightness_round_trip_exact) auto
  then show "\<exists>r. formatBrightness (parseBrightness (Some (digits raw))) = Num (of_int r)
               \<and> \<bar>r - int raw\<bar> \<le> 1"
    by (intro exI[of _ "int raw"]) simp
next
  fix raw :: int and res
  assume a: "0 \<le> raw \<and> raw \<le> 255 \<and> parseInt res = Num (of_int raw)"
  then have "formatBrightness (parseBrightness (Some res)) = Num (of_int raw)"
    by (intro brightness_round_trip_exact) auto
  then show "\<exists>r. formatBrightness (parseBrightness (Some res)) = Num (of_int r) \<and> \<bar>r - raw\<bar> \<le> 1"
    by (intro exI[of _ raw]) simp
next
  have "parseInt ''0'' = Num (of_int 0)" by (simp add: parseInt_eval)
  from parseBrightness_value(1)[OF this] show "parseBrightness (Some ''0'') = Num 1"
    using fl_of_int[of 1] by (simp add: fl_zero)
next
  have "parseInt ''255'' = Num (of_int 255)" by (simp add: parseInt_eval)
  from parseBrightness_value(1)[OF this] have "parseBrightness (Some ''255'') = Num (fl (1 - fl 1))" by simp
  then show "parseBrightness (Some ''255'') = Num 0"
    using fl_of_int[of 1] by (simp add: fl_zero)
qed

text \<open>The round trip at the raw value 128, and at the text \<^verbatim>\<open>100\<close> with a line feed.\<close>

theorem brightness_round_trip_witness:
  "(128::nat) \<le> 255 \<and> digits 128 = ''128''
   \<and> (\<exists>r. formatBrightness (parseBrightness (Some (digits 128))) = Num (of_int r)
          \<and> \<bar>r - int 128\<bar> \<le> 1)
   \<and> (0::int) \<le> 100 \<and> (100::int) \<le> 255 \<and> parseInt (''100'' @ [LF]) = Num (of_int 100)
   \<and> (\<exists>r. formatBrightness (parseBrightness (Some (''100'' @ [LF]))) = Num (of_int r)
          \<and> \<bar>r - 100\<bar> \<le> 1)"
proof -
  have d: "digits 128 = ''128''" by code_simp
  have h: "(0::int) \<le> 100 \<and> (100::int) \<le> 255 \<and> parseInt (''100'' @ [LF]) = Num (of_int 100)"
    by (simp add: parseInt_eval)
  have 1: "\<exists>r. formatBrightness (parseBrightness (Some (digits 128))) = Num (of_int r)
              \<and> \<bar>r - int 128\<bar> \<le> 1"
    using brightness_round_trip[THEN conjunct1, THEN spec, of 128] by simp
  have 2: "\<exists>r. formatBrightness (parseBrightness (Some (''100'' @ [LF]))) = Num (of_int r)
              \<and> \<bar>r - 100\<bar> \<le> 1"
    using brightness_round_trip[THEN conjunct2, THEN conjunct1, THEN spec, THEN spec,
        of 100 "''100'' @ [LF]"] h by blast
  show ?thesis using d h 1 2 by (intro conjI) simp_all
qed

section \<open>Tasks\<close>

lemma await_Inr: "m s = (Inr a, s') \<Longrightarrow> await m f s = f a s'"
  by (simp add: await_def)

lemma await_Inl: "m s = (Inl e, s') \<Longrightarrow> await m f s = (Inl e, s')"
  by (simp add: await_def)

lemma await_return [simp]: "await (return a) f = f a"
  by (rule ext) (simp add: await_def return_def)

lemma await_throw [simp]: "await (throw e) f = throw e"
  by (rule ext) (simp add: await_def throw_def)

lemma await_log_msg [simp]:
  "await (log_msg m sc l) f s = f () (s\<lparr>logs := logs s @ [(m, sc, l)]\<rparr>)"
  by (simp add: await_def log_msg_def)

lemma execAsync_Stdout:
  "run env cmd (world s) = (Stdout out, w) \<Longrightarrow>
   execAsync env cmd s = (Inr (Some out), s\<lparr>world := w, cmds := cmds s @ [cmd]\<rparr>)"
  by (simp add: execAsync_def)

lemma execAsync_Null:
  "run env cmd (world s) = (Null, w) \<Longrightarrow>
   execAsync env cmd s = (Inr None, s\<lparr>world := w, cmds := cmds s @ [cmd]\<rparr>)"
  by (simp add: execAsync_def)

lemma execAsync_Rejects:
  "run env cmd (world s) = (Rejects, w) \<Longrightarrow>
   execAsync env cmd s = (Inl ExecRejected, s\<lparr>world := w, cmds := cmds s @ [cmd]\<rparr>)"
  by (simp add: execAsync_def)

section \<open>Substrings and fields\<close>

lemma str_includes_sublist: "str_includes s sub = sublist sub s"
  by (induction s) (auto simp: sublist_Cons_right)

lemma str_split_nonempty: "str_split c s \<noteq> []"
  by (induction s) (auto split: list.splits)

lemma hd_str_split: "hd (str_split c s) = takeWhile (\<lambda>x. x \<noteq> c) s"
  by (induction s) (auto simp: str_split_nonempty split: list.splits)

lemma prefix_takeWhile:
  "c \<notin> set d \<Longrightarrow> prefix d (takeWhile (\<lambda>x. x \<noteq> c) xs) = prefix d xs"
proof (induction d arbitrary: xs)
  case Nil
  then show ?case by simp
next
  case (Cons a d)
  then show ?case by (cases xs) auto
qed

lemma sublist_field:
  assumes "c \<notin> set d"
  shows "sublist (c # d) s = (\<exists>f \<in> set (tl (str_split c s)). prefix d f)"
proof (induction s)
  case Nil
  then show ?case by simp
next
  case (Cons x xs)
  obtain y ys where sp: "str_split c xs = y # ys"
    using str_split_nonempty[of c xs] by (cases "str_split c xs") auto
  have y: "y = takeWhile (\<lambda>x. x \<noteq> c) xs"
    using hd_str_split[of c xs] sp by simp
  show ?case
  proof (cases "x = c")
    case True
    have "sublist (c # d) (x # xs) = (prefix d xs \<or> sublist (c # d) xs)"
      using True by (simp add: sublist_Cons_right)
    also have "\<dots> = (prefix d y \<or> (\<exists>f \<in> set ys. prefix d f))"
      using Cons.IH sp y prefix_takeWhile[OF assms] by simp
    finally show ?thesis using True sp by simp
  next
    case False
    then show ?thesis using Cons.IH sp by (simp add: sublist_Cons_right)
  qed
qed

section \<open>The device list\<close>

lemma getDevices_result:
  assumes "getAdbExecutable env s = (Inr adb, s1)"
      and "run env (adb @ '' devices'') (world s1) = (Stdout out, w)"
  shows "getDevices env s =
           (Inr (map (\<lambda>line. takeWhile (\<lambda>c. c \<noteq> TAB) line)
                   (filter (\<lambda>line. \<exists>f \<in> set (tl (str_split TAB line)). prefix ''device'' f)
                      (str_split LF out))),
            s1\<lparr>world := w, cmds := cmds s1 @ [adb @ '' devices'']\<rparr>)"
proof -
  have "\<And>line. str_includes line (TAB # ''device'')
          = (\<exists>f \<in> set (tl (str_split TAB line)). prefix ''device'' f)"
    by (simp only: str_includes_sublist, rule sublist_field) simp
  then show ?thesis
    using assms
    by (simp add: getDevices_def await_Inr execAsync_Stdout return_def hd_str_split)
qed

text \<open>
  Claim C3, as amended.  For every output of the device list, \<open>getDevices\<close> keeps exactly
  the lines in which a tab-separated field after the first begins with \<^verbatim>\<open>device\<close>, and
  returns the text before the first tab of each kept line, in the order of the output.
  So a line made of an identifier, a tab and a state is kept when the state is
  \<^verbatim>\<open>device\<close> and dropped when it is \<^verbatim>\<open>unauthorized\<close> or \<^verbatim>\<open>offline\<close>, and a line with
  no tab is dropped; for the lines \<^verbatim>\<open>X<tab>device\<close>, \<^verbatim>\<open>Y<tab>unauthorized\<close>,
  \<^verbatim>\<open>Z<tab>device\<close> the result is \<open>[X, Z]\<close>.
\<close>

theorem getDevices_filter:
  assumes "getAdbExecutable env s = (Inr adb, s1)"
      and "run env (adb @ '' devices'') (world s1) = (Stdout out, w)"
  shows "fst (getDevices env s) =
           Inr (map (\<lambda>line. takeWhile (\<lambda>c. c \<noteq> TAB) line)
                  (filter (\<lambda>line. \<exists>f \<in> set (tl (str_split TAB line)). prefix ''device'' f)
                     (str_split LF out)))
         \<and> (out = ''X'' @ [TAB] @ ''device'' @ [LF] @ ''Y'' @ [TAB] @ ''unauthorized'' @ [LF]
                    @ ''Z'' @ [TAB] @ ''device''
              \<longrightarrow> fst (getDevices env s) = Inr [''X'', ''Z''])"
  using getDevices_result[OF assms] by simp

text \<open>The three lines of the claim, on the simulated host.\<close>

theorem getDevices_filter_witness:
  "getAdbExecutable sim_env
       (start (sim_host\<lparr>attached := Stdout (''X'' @ [TAB] @ ''device'' @ [LF] @ ''Y'' @ [TAB]
                 @ ''unauthorized'' @ [LF] @ ''Z'' @ [TAB] @ ''device'')\<rparr>))
     = (Inr ''adb'',
        (start (sim_host\<lparr>attached := Stdout (''X'' @ [TAB] @ ''device'' @ [LF] @ ''Y'' @ [TAB]
                 @ ''unauthorized'' @ [LF] @ ''Z'' @ [TAB] @ ''device'')\<rparr>))
          \<lparr>cmds := [''adb version'']\<rparr>)
   \<and> fst (run sim_env (''adb'' @ '' devices'')
            (sim_host\<lparr>attached := Stdout (''X'' @ [TAB] @ ''device'' @ [LF] @ ''Y'' @ [TAB]
                 @ ''unauthorized'' @ [LF] @ ''Z'' @ [TAB] @ ''device'')\<rparr>))
     = Stdout (''X'' @ [TAB] @ ''device'' @ [LF] @ ''Y'' @ [TAB] @ ''unauthorized'' @ [LF]
                 @ ''Z'' @ [TAB] @ ''device'')
   \<and> fst (getDevices sim_env
            (start (sim_host\<lparr>attached := Stdout (''X'' @ [TAB] @ ''device'' @ [LF] @ ''Y'' @ [TAB]
                 @ ''unauthorized'' @ [LF] @ ''Z'' @ [TAB] @ ''device'')\<rparr>)))
     = Inr [''X'', ''Z'']"
proof -
  define w where "w = sim_host\<lparr>attached := Stdout (''X'' @ [TAB] @ ''device'' @ [LF] @ ''Y'' @ [TAB]
                 @ ''unauthorized'' @ [LF] @ ''Z'' @ [TAB] @ ''device'')\<rparr>"
  have a: "getAdbExecutable sim_env (start w) = (Inr ''adb'', (start w)\<lparr>cmds := [''adb version'']\<rparr>)"
    by (simp add: w_def getAdbExecutable_def await_def catch_null_def execAsync_def sim_env_def
        sim_run_def sim_host_def start_def truthy_def return_def)
  have b: "run sim_env (''adb'' @ '' devices'') (world ((start w)\<lparr>cmds := [''adb version'']\<rparr>))
     = (Stdout (''X'' @ [TAB] @ ''device'' @ [LF] @ ''Y'' @ [TAB] @ ''unauthorized'' @ [LF]
                 @ ''Z'' @ [TAB] @ ''device''), w)"
    by (simp add: w_def sim_env_def sim_run_def sim_host_def start_def)
  from getDevices_filter[OF a b] have "fst (getDevices sim_env (start w)) = Inr [''X'', ''Z'']"
    by blast
  then show ?thesis using a b unfolding w_def by (simp add: start_def)
qed

text \<open>
  The claim as stated asks for a state field that is exactly \<^verbatim>\<open>device\<close>.  The test in
  the code is \<^verbatim>\<open>line.includes('\tdevice')\<close>: the line \<^verbatim>\<open>X<tab>devices\<close>, whose state
  field is not \<^verbatim>\<open>device\<close>, is kept, and so is a line \<^verbatim>\<open>X<tab>device\<close> that ends with
  a carriage return.
\<close>

theorem getDevices_keeps_other_state:
  "str_split TAB (''X'' @ [TAB] @ ''devices'') = [''X'', ''devices'']
   \<and> ''devices'' \<noteq> ''device''
   \<and> fst (getDevices sim_env
            (start (sim_host\<lparr>attached := Stdout (''X'' @ [TAB] @ ''devices'')\<rparr>))) = Inr [''X'']
   \<and> str_split TAB (''X'' @ [TAB] @ ''device'' @ [CHR 0x0D]) = [''X'', ''device'' @ [CHR 0x0D]]
   \<and> ''device'' @ [CHR 0x0D] \<noteq> ''device''
   \<and> fst (getDevices sim_env
            (start (sim_host\<lparr>attached := Stdout (''X'' @ [TAB] @ ''device'' @ [CHR 0x0D, LF])\<rparr>)))
       = Inr [''X'']"
  by (simp add: getDevices_def getAdbExecutable_def await_def catch_null_def execAsync_def
      sim_env_def sim_run_def sim_host_def start_def truthy_def return_def)

section \<open>The device check\<close>

lemma checkValidDevice_result:
  assumes "getAdbExecutable env s = (Inr adb, s1)"
      and "run env (adb @ '' -s '' @ device @ '' shell ls /usr/share/qt-superbird-app/webapp/'')
             (world s1) = (Stdout out, w)"
  shows "checkValidDevice env device s =
           (Inr (sublist ''index.html'' out),
            s1\<lparr>world := w,
               cmds := cmds s1 @ [adb @ '' -s '' @ device
                                    @ '' shell ls /usr/share/qt-superbird-app/webapp/'']\<rparr>)"
  using assms
  by (simp add: checkValidDevice_def await_Inr execAsync_Stdout return_def str_includes_sublist)

text \<open>
  Claim C4, as amended.  For every candidate identifier, \<open>checkValidDevice\<close> returns true
  if and only if the listing of the web-app directory of the device contains the name
  \<^verbatim>\<open>index.html\<close>, a file of the stock web application.
\<close>

theorem checkValidDevice_index_html:
  assumes "getAdbExecutable env s = (Inr adb, s1)"
      and "run env (adb @ '' -s '' @ device @ '' shell ls /usr/share/qt-superbird-app/webapp/'')
             (world s1) = (Stdout out, w)"
  shows "fst (checkValidDevice env device s) = Inr (sublist ''index.html'' out)"
  using checkValidDevice_result[OF assms] by simp

lemma sim_adb:
  "adb_installed w \<Longrightarrow>
   getAdbExecutable sim_env \<lparr>world = w, cmds = cs, requests = rs, logs = ls\<rparr>
     = (Inr ''adb'', \<lparr>world = w, cmds = cs @ [''adb version''], requests = rs, logs = ls\<rparr>)"
  by (simp add: getAdbExecutable_def await_def catch_null_def execAsync_def sim_env_def
      sim_run_def truthy_def return_def)

text \<open>The check of the device \<open>X\<close> of the simulated host.\<close>

theorem checkValidDevice_index_html_witness:
  "getAdbExecutable sim_env (start sim_host)
     = (Inr ''adb'', \<lparr>world = sim_host, cmds = [''adb version''], requests = [], logs = []\<rparr>)
   \<and> run sim_env (''adb'' @ '' -s '' @ ''X'' @ '' shell ls /usr/share/qt-superbird-app/webapp/'')
         sim_host = (Stdout (''index.html'' @ [LF] @ ''static'' @ [LF]), sim_host)
   \<and> fst (checkValidDevice sim_env ''X'' (start sim_host)) = Inr True"
proof -
  have a: "getAdbExecutable sim_env (start sim_host)
     = (Inr ''adb'', \<lparr>world = sim_host, cmds = [''adb version''], requests = [], logs = []\<rparr>)"
    unfolding start_def by (subst sim_adb) (simp_all add: sim_host_def)
  have b: "run sim_env (''adb'' @ '' -s '' @ ''X'' @ '' shell ls /usr/share/qt-superbird-app/webapp/'')
         (world \<lparr>world = sim_host, cmds = [''adb version''], requests = [], logs = []\<rparr>)
       = (Stdout (''index.html'' @ [LF] @ ''static'' @ [LF]), sim_host)"
    by (simp add: sim_env_def sim_run_def sim_host_def)
  have c: "sublist ''index.html'' (''index.html'' @ [LF] @ ''static'' @ [LF])"
    by (simp add: sublist_code)
  from checkValidDevice_index_html[OF a b] show ?thesis using a b c by simp
qed

text \<open>
  The claim as stated takes the name looked for to be the install marker
  \<^verbatim>\<open>.glancething\<close>, the empty file that \<open>installApp\<close> creates.  A listing with
  \<^verbatim>\<open>index.html\<close> and no marker is valid, and a listing with the marker alone is not.
\<close>

theorem checkValidDevice_ignores_marker:
  "fst (checkValidDevice sim_env ''X'' (start (sim_host\<lparr>webapp := Stdout ''index.html''\<rparr>)))
     = Inr True
   \<and> \<not> sublist ''.glancething'' ''index.html''
   \<and> fst (checkValidDevice sim_env ''X'' (start (sim_host\<lparr>webapp := Stdout ''.glancething''\<rparr>)))
     = Inr False
   \<and> sublist ''.glancething'' ''.glancething''"
  by (simp add: checkValidDevice_def getAdbExecutable_def await_def catch_null_def execAsync_def
      sim_env_def sim_run_def sim_host_def start_def truthy_def return_def sublist_code)

section \<open>The install marker\<close>

text \<open>The first line of every operation: the device that was given, or the one that
  discovery finds.\<close>

lemma checkInstalledApp_result:
  assumes "(if \<not> truthy device0 then findCarThing env else return device0) s = (Inr device, s0)"
      and "truthy device"
      and "getAdbExecutable env s0 = (Inr adb, s1)"
      and "run env (adb @ '' -s '' @ ToString device
                      @ '' shell ls /usr/share/qt-superbird-app/webapp/.glancething'')
             (world s1) = (Stdout out, w)"
  shows "fst (checkInstalledApp env device0 s) = Inr (\<not> sublist ''No such file or directory'' out)"
  using assms
  by (simp add: checkInstalledApp_def await_Inr execAsync_Stdout return_def str_includes_sublist)

text \<open>
  Claim C6.  Whenever the listing of the install-marker path succeeds, on the device that
  was given or that discovery found, \<open>checkInstalledApp\<close> returns false when the listing
  contains \<^verbatim>\<open>No such file or directory\<close> and true for any other listing.
\<close>

theorem checkInstalledApp_marker:
  assumes "(if \<not> truthy device0 then findCarThing env else return device0) s = (Inr device, s0)"
      and "truthy device"
      and "getAdbExecutable env s0 = (Inr adb, s1)"
      and "run env (adb @ '' -s '' @ ToString device
                      @ '' shell ls /usr/share/qt-superbird-app/webapp/.glancething'')
             (world s1) = (Stdout out, w)"
  shows "(sublist ''No such file or directory'' out
            \<longrightarrow> fst (checkInstalledApp env device0 s) = Inr False)
       \<and> (\<not> sublist ''No such file or directory'' out
            \<longrightarrow> fst (checkInstalledApp env device0 s) = Inr True)"
  using checkInstalledApp_result[OF assms] by simp

section \<open>Discovery\<close>

lemma findCarThing_unfold:
  "findCarThing env s =
     await (getDevices env) (\<lambda>devices.
     await (first_valid env devices) (\<lambda>found.
     case found of
       Some device \<Rightarrow> return (Some device)
     | None \<Rightarrow>
         await (log_msg ''No valid CarThing found'' ''adb'' (Some WARN)) (\<lambda>_.
         return None)))
       (s\<lparr>logs := logs s @ [(''Finding CarThing...'', ''adb'', Some DEBUG)]\<rparr>)"
  by (simp add: findCarThing_def)

text \<open>
  Claim C7.  When the device list is empty, \<open>findCarThing\<close> returns null without raising,
  and the commands it has run are those of \<open>getDevices\<close>: no device is checked.
\<close>

theorem findCarThing_empty_list:
  assumes "getDevices env (s\<lparr>logs := logs s @ [(''Finding CarThing...'', ''adb'', Some DEBUG)]\<rparr>)
             = (Inr [], s1)"
  shows "fst (findCarThing env s) = Inr None
       \<and> cmds (snd (findCarThing env s)) = cmds s1
       \<and> world (snd (findCarThing env s)) = world s1"
  using assms by (simp add: findCarThing_unfold await_Inr return_def)

lemma getDevices_Null:
  assumes "getAdbExecutable env s = (Inr adb, s1)"
      and "run env (adb @ '' devices'') (world s1) = (Null, w)"
  shows "fst (getDevices env s) = Inl TypeError"
  using assms by (simp add: getDevices_def await_Inr execAsync_Null throw_def)

lemma getDevices_Inr:
  assumes "getDevices env s = (Inr ds, s')"
  shows "\<exists>adb s1 out w. getAdbExecutable env s = (Inr adb, s1)
           \<and> run env (adb @ '' devices'') (world s1) = (Stdout out, w)"
proof -
  obtain r s1 where a: "getAdbExecutable env s = (r, s1)" by (cases "getAdbExecutable env s")
  show ?thesis
  proof (cases r)
    case (Inl e)
    then show ?thesis using assms a by (simp add: getDevices_def await_def)
  next
    case (Inr adb)
    obtain o1 w where b: "run env (adb @ '' devices'') (world s1) = (o1, w)"
      by (cases "run env (adb @ '' devices'') (world s1)")
    show ?thesis
    proof (cases o1)
      case Rejects
      then show ?thesis using assms a b Inr
        by (simp add: getDevices_def await_Inr await_Inl execAsync_Rejects)
    next
      case Null
      then show ?thesis using assms a b Inr
        by (simp add: getDevices_def await_Inr execAsync_Null throw_def)
    next
      case (Stdout out)
      then show ?thesis using a b Inr by auto
    qed
  qed
qed

lemma findCarThing_Inr:
  assumes "fst (findCarThing env s) = Inr found"
  shows "\<exists>ds s'. getDevices env (s\<lparr>logs := logs s @ [(''Finding CarThing...'', ''adb'', Some DEBUG)]\<rparr>)
           = (Inr ds, s')"
proof -
  let ?s = "s\<lparr>logs := logs s @ [(''Finding CarThing...'', ''adb'', Some DEBUG)]\<rparr>"
  obtain r s' where a: "getDevices env ?s = (r, s')" by (cases "getDevices env ?s")
  show ?thesis
  proof (cases r)
    case (Inl e)
    then show ?thesis using assms a by (simp add: findCarThing_unfold await_Inl)
  next
    case (Inr ds)
    then show ?thesis using a by auto
  qed
qed

text \<open>
  Claim C9.  When the device-list command resolves to null, \<open>findCarThing\<close> raises (a
  type error, from \<^verbatim>\<open>res.split\<close>) instead of returning null; and whenever it returns
  null, the device-list command had succeeded with some output.
\<close>

theorem findCarThing_list_failure:
  "(getAdbExecutable env (s\<lparr>logs := logs s @ [(''Finding CarThing...'', ''adb'', Some DEBUG)]\<rparr>)
      = (Inr adb, s1)
    \<and> run env (adb @ '' devices'') (world s1) = (Null, w)
    \<longrightarrow> fst (findCarThing env s) = Inl TypeError)
   \<and> (fst (findCarThing env s) = Inr None
    \<longrightarrow> (\<exists>adb s1 out w.
          getAdbExecutable env (s\<lparr>logs := logs s @ [(''Finding CarThing...'', ''adb'', Some DEBUG)]\<rparr>)
            = (Inr adb, s1)
          \<and> run env (adb @ '' devices'') (world s1) = (Stdout out, w)))"
proof (intro conjI impI)
  let ?s = "s\<lparr>logs := logs s @ [(''Finding CarThing...'', ''adb'', Some DEBUG)]\<rparr>"
  assume "getAdbExecutable env ?s = (Inr adb, s1) \<and> run env (adb @ '' devices'') (world s1) = (Null, w)"
  then have "fst (getDevices env ?s) = Inl TypeError" by (intro getDevices_Null) auto
  then show "fst (findCarThing env s) = Inl TypeError"
    by (cases "getDevices env ?s") (simp add: findCarThing_unfold await_Inl)
next
  assume "fst (findCarThing env s) = Inr None"
  from findCarThing_Inr[OF this] getDevices_Inr
  show "\<exists>adb s1 out w.
          getAdbExecutable env (s\<lparr>logs := logs s @ [(''Finding CarThing...'', ''adb'', Some DEBUG)]\<rparr>)
            = (Inr adb, s1)
          \<and> run env (adb @ '' devices'') (world s1) = (Stdout out, w)"
    by blast
qed

section \<open>The cache of the bridge resolver\<close>

text \<open>
  Claim C5, as amended.  Whenever the installed file exists at the computed path under
  the user data directory, resolving the bridge executable issues no HTTP request; it
  returns the bare name \<^verbatim>\<open>adb\<close> when the version check succeeds on a host that is not
  darwin, and the quoted install path, by the cache-hit branch, otherwise.
\<close>

theorem getAdbExecutable_cached:
  assumes "run env ''adb version'' (world s) = (res, w)"
      and "existsSync env
             (path_join env (path_join env (getPath env ''userData'') ''platform-tools'')
                (executable env)) w"
  shows "fst (getAdbExecutable env s) =
           Inr (if (\<exists>out. res = Stdout out \<and> out \<noteq> []) \<and> platform env \<noteq> ''darwin'' then ''adb''
                else quoted (path_join env
                               (path_join env (getPath env ''userData'') ''platform-tools'')
                               (executable env)))
       \<and> requests (snd (getAdbExecutable env s)) = requests s"
  using assms
  by (cases res)
     (simp_all add: getAdbExecutable_def await_def catch_null_def execAsync_def truthy_def
        return_def fs_existsSync_def Let_def)


section \<open>Runs on the simulated host\<close>

lemmas sim_eval =
  getAdbExecutable_def getDevices_def checkValidDevice_def findCarThing_def await_def
  catch_null_def execAsync_def log_msg_def return_def throw_def truthy_def ToString_def
  sim_env_def sim_run_def sim_host_def start_def fs_existsSync_def host_def
  axios_get_status_def quoted_def Let_def

lemma pair_fst_snd: "fst p = a \<Longrightarrow> p = (a, snd p)"
  by (cases p) simp

text \<open>The marker check after discovery on the simulated host, and on a device without
  the marker.\<close>

theorem checkInstalledApp_marker_witness:
  "fst (findCarThing sim_env (start sim_host)) = Inr (Some ''X'')
   \<and> truthy (Some ''X'')
   \<and> fst (getAdbExecutable sim_env (snd (findCarThing sim_env (start sim_host)))) = Inr ''adb''
   \<and> fst (run sim_env (''adb'' @ '' -s '' @ ToString (Some ''X'')
                      @ '' shell ls /usr/share/qt-superbird-app/webapp/.glancething'') sim_host)
       = Stdout ''/usr/share/qt-superbird-app/webapp/.glancething''
   \<and> \<not> sublist ''No such file or directory'' ''/usr/share/qt-superbird-app/webapp/.glancething''
   \<and> fst (checkInstalledApp sim_env None (start sim_host)) = Inr True
   \<and> fst (run sim_env (''adb'' @ '' -s '' @ ToString (Some ''X'')
                      @ '' shell ls /usr/share/qt-superbird-app/webapp/.glancething'')
            (sim_host\<lparr>marker := Stdout ''ls: .glancething: No such file or directory''\<rparr>))
       = Stdout ''ls: .glancething: No such file or directory''
   \<and> sublist ''No such file or directory'' ''ls: .glancething: No such file or directory''
   \<and> fst (checkInstalledApp sim_env (Some ''X'')
            (start (sim_host\<lparr>marker := Stdout ''ls: .glancething: No such file or directory''\<rparr>)))
       = Inr False"
proof -
  let ?s0 = "snd (findCarThing sim_env (start sim_host))"
  let ?s1 = "snd (getAdbExecutable sim_env ?s0)"
  have f: "fst (findCarThing sim_env (start sim_host)) = Inr (Some ''X'')"
    by (simp add: sim_eval)
  have a: "fst (getAdbExecutable sim_env ?s0) = Inr ''adb''" by (simp add: sim_eval)
  have w1: "world ?s1 = sim_host" by (simp add: sim_eval)
  have r: "run sim_env (''adb'' @ '' -s '' @ ToString (Some ''X'')
                      @ '' shell ls /usr/share/qt-superbird-app/webapp/.glancething'') (world ?s1)
       = (Stdout ''/usr/share/qt-superbird-app/webapp/.glancething'', sim_host)"
    unfolding w1 by (simp add: sim_env_def sim_run_def sim_host_def ToString_def)
  have n: "\<not> sublist ''No such file or directory'' ''/usr/share/qt-superbird-app/webapp/.glancething''"
    by (simp add: sublist_code)
  have t: "truthy (Some ''X'')" by (simp add: truthy_def)
  have h1: "(if \<not> truthy None then findCarThing sim_env else return None) (start sim_host)
              = (Inr (Some ''X''), ?s0)"
    using pair_fst_snd[OF f] by (simp add: truthy_def)
  from checkInstalledApp_marker[OF h1 t pair_fst_snd[OF a] r] n
  have yes: "fst (checkInstalledApp sim_env None (start sim_host)) = Inr True" by blast
  define v where "v = sim_host\<lparr>marker := Stdout ''ls: .glancething: No such file or directory''\<rparr>"
  let ?t1 = "snd (getAdbExecutable sim_env (start v))"
  have h2: "(if \<not> truthy (Some ''X'') then findCarThing sim_env else return (Some ''X'')) (start v)
              = (Inr (Some ''X''), start v)"
    by (simp add: truthy_def return_def)
  have a2: "fst (getAdbExecutable sim_env (start v)) = Inr ''adb''" by (simp add: v_def sim_eval)
  have w2: "world ?t1 = v" by (simp add: v_def sim_eval)
  have r2: "run sim_env (''adb'' @ '' -s '' @ ToString (Some ''X'')
                      @ '' shell ls /usr/share/qt-superbird-app/webapp/.glancething'') (world ?t1)
       = (Stdout ''ls: .glancething: No such file or directory'', v)"
    unfolding w2 by (simp add: v_def sim_env_def sim_run_def sim_host_def ToString_def)
  have y: "sublist ''No such file or directory'' ''ls: .glancething: No such file or directory''"
    by (simp add: sublist_code)
  from checkInstalledApp_marker[OF h2 t pair_fst_snd[OF a2] r2] y
  have no: "fst (checkInstalledApp sim_env (Some ''X'') (start v)) = Inr False" by blast
  show ?thesis using f t a r n yes r2 y no w1 w2 unfolding v_def by simp
qed

text \<open>Discovery with no device attached.\<close>

theorem findCarThing_empty_list_witness:
  "fst (getDevices sim_env
          ((start (sim_host\<lparr>attached := Stdout ''List of devices attached''\<rparr>))
             \<lparr>logs := [(''Finding CarThing...'', ''adb'', Some DEBUG)]\<rparr>)) = Inr []
   \<and> fst (findCarThing sim_env (start (sim_host\<lparr>attached := Stdout ''List of devices attached''\<rparr>)))
       = Inr None
   \<and> cmds (snd (findCarThing sim_env
                   (start (sim_host\<lparr>attached := Stdout ''List of devices attached''\<rparr>))))
       = [''adb version'', ''adb devices'']"
proof -
  define s where "s = start (sim_host\<lparr>attached := Stdout ''List of devices attached''\<rparr>)"
  let ?s = "s\<lparr>logs := logs s @ [(''Finding CarThing...'', ''adb'', Some DEBUG)]\<rparr>"
  have g: "fst (getDevices sim_env ?s) = Inr []" by (simp add: s_def sim_eval)
  have c: "cmds (snd (getDevices sim_env ?s)) = [''adb version'', ''adb devices'']"
    by (simp add: s_def sim_eval)
  from findCarThing_empty_list[OF pair_fst_snd[OF g]] c
  have "fst (findCarThing sim_env s) = Inr None
      \<and> cmds (snd (findCarThing sim_env s)) = [''adb version'', ''adb devices'']"
    by simp
  moreover have "?s = s\<lparr>logs := [(''Finding CarThing...'', ''adb'', Some DEBUG)]\<rparr>"
    by (simp add: s_def start_def)
  ultimately show ?thesis using g unfolding s_def by simp
qed

text \<open>Discovery when the device list fails, and when it succeeds with no device.\<close>

theorem findCarThing_list_failure_witness:
  "fst (getAdbExecutable sim_env
          ((start (sim_host\<lparr>attached := Null\<rparr>))
             \<lparr>logs := [(''Finding CarThing...'', ''adb'', Some DEBUG)]\<rparr>)) = Inr ''adb''
   \<and> run sim_env (''adb'' @ '' devices'') (sim_host\<lparr>attached := Null\<rparr>)
       = (Null, sim_host\<lparr>attached := Null\<rparr>)
   \<and> fst (findCarThing sim_env (start (sim_host\<lparr>attached := Null\<rparr>))) = Inl TypeError
   \<and> fst (findCarThing sim_env (start (sim_host\<lparr>attached := Stdout ''List of devices attached''\<rparr>)))
       = Inr None
   \<and> (\<exists>adb s1 out w.
        getAdbExecutable sim_env
          ((start (sim_host\<lparr>attached := Stdout ''List of devices attached''\<rparr>))
             \<lparr>logs := [(''Finding CarThing...'', ''adb'', Some DEBUG)]\<rparr>) = (Inr adb, s1)
        \<and> run sim_env (adb @ '' devices'') (world s1) = (Stdout out, w))"
proof -
  define s where "s = start (sim_host\<lparr>attached := Null\<rparr>)"
  define t where "t = start (sim_host\<lparr>attached := Stdout ''List of devices attached''\<rparr>)"
  let ?s = "s\<lparr>logs := logs s @ [(''Finding CarThing...'', ''adb'', Some DEBUG)]\<rparr>"
  let ?t = "t\<lparr>logs := logs t @ [(''Finding CarThing...'', ''adb'', Some DEBUG)]\<rparr>"
  have a: "fst (getAdbExecutable sim_env ?s) = Inr ''adb''" by (simp add: s_def sim_eval)
  have w: "world (snd (getAdbExecutable sim_env ?s)) = sim_host\<lparr>attached := Null\<rparr>"
    by (simp add: s_def sim_eval)
  have r: "run sim_env (''adb'' @ '' devices'') (sim_host\<lparr>attached := Null\<rparr>)
       = (Null, sim_host\<lparr>attached := Null\<rparr>)"
    by (simp add: sim_env_def sim_run_def sim_host_def)
  have n: "fst (findCarThing sim_env t) = Inr None" by (simp add: t_def sim_eval)
  note thm1 = findCarThing_list_failure[of sim_env s "''adb''"
      "snd (getAdbExecutable sim_env ?s)" "sim_host\<lparr>attached := Null\<rparr>" ,
      THEN conjunct1, rule_format]
  have e: "fst (findCarThing sim_env s) = Inl TypeError"
    using thm1 pair_fst_snd[OF a] r w by simp
  note thm2 = findCarThing_list_failure[of sim_env t, THEN conjunct2, rule_format, OF n]
  have ls: "?s = s\<lparr>logs := [(''Finding CarThing...'', ''adb'', Some DEBUG)]\<rparr>"
    by (simp add: s_def start_def)
  have lt: "?t = t\<lparr>logs := [(''Finding CarThing...'', ''adb'', Some DEBUG)]\<rparr>"
    by (simp add: t_def start_def)
  show ?thesis
    using a r e n thm2 unfolding ls lt unfolding s_def t_def by simp
qed

text \<open>A host without \<^verbatim>\<open>adb\<close>: the first call downloads and extracts, the second call
  on the resulting host returns the same path and requests nothing.\<close>

theorem getAdbExecutable_cached_witness:
  "fst (getAdbExecutable sim_env (start (sim_host\<lparr>adb_installed := False\<rparr>)))
     = Inr (quoted ''/data/platform-tools/adb'')
   \<and> requests (snd (getAdbExecutable sim_env (start (sim_host\<lparr>adb_installed := False\<rparr>))))
     = [''https://dl.google.com/android/repository/platform-tools-latest-linux.zip'']
   \<and> existsSync sim_env ''/data/platform-tools/adb''
       (world (snd (getAdbExecutable sim_env (start (sim_host\<lparr>adb_installed := False\<rparr>)))))
   \<and> fst (getAdbExecutable sim_env
            (start (world (snd (getAdbExecutable sim_env
                                  (start (sim_host\<lparr>adb_installed := False\<rparr>)))))))
     = Inr (quoted ''/data/platform-tools/adb'')
   \<and> requests (snd (getAdbExecutable sim_env
            (start (world (snd (getAdbExecutable sim_env
                                  (start (sim_host\<lparr>adb_installed := False\<rparr>))))))))
     = []"
proof -
  define w1 where
    "w1 = world (snd (getAdbExecutable sim_env (start (sim_host\<lparr>adb_installed := False\<rparr>))))"
  have w1: "w1 = sim_host\<lparr>adb_installed := False,
                   files := [''/data/platform-tools/adb'', ''/tmp/platform-tools-glancething-temp.zip'']\<rparr>"
    unfolding w1_def by (simp add: sim_eval)
  have first: "fst (getAdbExecutable sim_env (start (sim_host\<lparr>adb_installed := False\<rparr>)))
     = Inr (quoted ''/data/platform-tools/adb'')"
    "requests (snd (getAdbExecutable sim_env (start (sim_host\<lparr>adb_installed := False\<rparr>))))
     = [''https://dl.google.com/android/repository/platform-tools-latest-linux.zip'']"
    by (simp_all add: sim_eval)
  have r: "run sim_env ''adb version'' (world (start w1)) = (Rejects, w1)"
    by (simp add: w1 sim_env_def sim_run_def sim_host_def start_def)
  have p: "path_join sim_env (path_join sim_env (getPath sim_env ''userData'') ''platform-tools'')
             (executable sim_env) = ''/data/platform-tools/adb''"
    by (simp add: sim_env_def)
  have x: "existsSync sim_env ''/data/platform-tools/adb'' w1"
    by (simp add: w1 sim_env_def)
  from getAdbExecutable_cached[OF r, unfolded p, OF x]
  have "fst (getAdbExecutable sim_env (start w1)) = Inr (quoted ''/data/platform-tools/adb'')
      \<and> requests (snd (getAdbExecutable sim_env (start w1))) = []"
    by (simp add: start_def)
  then show ?thesis using first x unfolding w1_def by simp
qed

text \<open>
  The claim as stated has every later call return the quoted install path.  The version
  check comes first: once \<^verbatim>\<open>adb\<close> is on the search path of the provisioned Linux host,
  the call returns the bare name, although the installed file is still there.
\<close>

theorem getAdbExecutable_fast_path_after_provisioning:
  "fst (getAdbExecutable sim_env (start (sim_host\<lparr>adb_installed := False\<rparr>)))
     = Inr (quoted ''/data/platform-tools/adb'')
   \<and> world (snd (getAdbExecutable sim_env (start (sim_host\<lparr>adb_installed := False\<rparr>))))
     = sim_host\<lparr>adb_installed := False,
         files := [''/data/platform-tools/adb'', ''/tmp/platform-tools-glancething-temp.zip'']\<rparr>
   \<and> existsSync sim_env ''/data/platform-tools/adb''
       (sim_host\<lparr>adb_installed := True,
          files := [''/data/platform-tools/adb'', ''/tmp/platform-tools-glancething-temp.zip'']\<rparr>)
   \<and> fst (getAdbExecutable sim_env
            (start (sim_host\<lparr>adb_installed := True,
               files := [''/data/platform-tools/adb'', ''/tmp/platform-tools-glancething-temp.zip'']\<rparr>)))
     = Inr ''adb''
   \<and> ''adb'' \<noteq> quoted ''/data/platform-tools/adb''"
  by (simp add: sim_eval)

section \<open>The ramp\<close>

lemma ramp_cmds:
  assumes "i \<le> steps + 1"
  shows "\<exists>n. i + n \<le> steps + 1
           \<and> cmds (snd (ramp env adb device c t i s))
               = cmds s @ map (\<lambda>k. echo_brightness adb device (ramp_value c t k)) [i ..< i + n]
           \<and> (fst (ramp env adb device c t i s) = Inr () \<longrightarrow> i + n = steps + 1)"
  using assms
proof (induction "steps + 1 - i" arbitrary: i s)
  case 0
  then have "\<not> i \<le> steps" by simp
  then have "ramp env adb device c t i s = (Inr (), s)"
    by (simp add: ramp.simps return_def)
  then show ?case using 0 by (intro exI[of _ 0]) simp
next
  case (Suc m)
  then have i: "i \<le> steps" by simp
  let ?cmd = "echo_brightness adb device (ramp_value c t i)"
  obtain r w where run: "run env ?cmd (world s) = (r, w)" by (cases "run env ?cmd (world s)")
  let ?s' = "s\<lparr>world := w, cmds := cmds s @ [?cmd]\<rparr>"
  have unfold: "ramp env adb device c t i s
      = await (execAsync env ?cmd) (\<lambda>_. ramp env adb device c t (i + 1)) s"
    using i by (subst ramp.simps) (simp add: ramp_value_def Let_def)
  show ?case
  proof (cases "r = Rejects")
    case True
    then have "ramp env adb device c t i s = (Inl ExecRejected, ?s')"
      using run by (simp add: unfold await_Inl execAsync_Rejects)
    then show ?thesis using i by (intro exI[of _ 1]) simp
  next
    case False
    then obtain a where "execAsync env ?cmd s = (Inr a, ?s')"
      using run by (cases r) (auto simp: execAsync_def)
    then have step: "ramp env adb device c t i s = ramp env adb device c t (i + 1) ?s'"
      by (simp add: unfold await_Inr)
    have "m = steps + 1 - (i + 1)" "i + 1 \<le> steps + 1" using Suc(2) i by simp_all
    from Suc(1)[OF this, of ?s'] obtain n where n:
      "i + 1 + n \<le> steps + 1"
      "cmds (snd (ramp env adb device c t (i + 1) ?s'))
         = cmds ?s' @ map (\<lambda>k. echo_brightness adb device (ramp_value c t k)) [i + 1 ..< i + 1 + n]"
      "fst (ramp env adb device c t (i + 1) ?s') = Inr () \<longrightarrow> i + 1 + n = steps + 1"
      by blast
    have "[i ..< i + (n + 1)] = i # [i + 1 ..< i + 1 + n]" by (simp add: upt_rec)
    then show ?thesis using n step by (intro exI[of _ "n + 1"]) simp
  qed
qed

lemma ramp_completes:
  assumes "i \<le> steps + 1"
      and "\<forall>v w. fst (run env (echo_brightness adb device v) w) \<noteq> Rejects"
  shows "fst (ramp env adb device c t i s) = Inr ()"
  using assms(1)
proof (induction "steps + 1 - i" arbitrary: i s)
  case 0
  then have "\<not> i \<le> steps" by simp
  then show ?case by (simp add: ramp.simps return_def)
next
  case (Suc m)
  then have i: "i \<le> steps" by simp
  let ?cmd = "echo_brightness adb device (ramp_value c t i)"
  obtain r w where run: "run env ?cmd (world s) = (r, w)" by (cases "run env ?cmd (world s)")
  let ?s' = "s\<lparr>world := w, cmds := cmds s @ [?cmd]\<rparr>"
  have unfold: "ramp env adb device c t i s
      = await (execAsync env ?cmd) (\<lambda>_. ramp env adb device c t (i + 1)) s"
    using i by (subst ramp.simps) (simp add: ramp_value_def Let_def)
  have "r \<noteq> Rejects" using assms(2) run by (metis fst_conv)
  then obtain a where "execAsync env ?cmd s = (Inr a, ?s')"
    using run by (cases r) (auto simp: execAsync_def)
  then have step: "ramp env adb device c t i s = ramp env adb device c t (i + 1) ?s'"
    by (simp add: unfold await_Inr)
  have "m = steps + 1 - (i + 1)" "i + 1 \<le> steps + 1" using Suc(2) i by simp_all
  from Suc(1)[OF this, of ?s'] show ?case by (simp add: step)
qed

text \<open>The arithmetic of one round, for integer raw values.\<close>

lemma ramp_value_int:
  fixes c t :: int
  assumes c: "\<bar>c\<bar> \<le> 2 ^ 52" and t: "\<bar>t\<bar> \<le> 2 ^ 52" and i: "i \<le> 10"
  shows "ramp_value (Num (of_int c)) (Num (of_int t)) i = Num (of_int (ramp_int c t i))"
    and "min c t \<le> ramp_int c t i" and "ramp_int c t i \<le> max c t"
proof -
  define q :: rat where "q = fl (of_nat i / 10)"
  have iq: "(0::rat) \<le> of_nat i / 10" "(of_nat i :: rat) / 10 \<le> 1" using i by simp_all
  have q: "0 \<le> q" "q \<le> 1"
    using fl_between[of 0 "of_nat i / 10" 1] iq by (simp_all add: q_def)
  have d1: "double_of (of_nat i / 10) = Num q"
    using iq unfolding q_def by (intro double_of_small) simp
  define d :: int where "d = t - c"
  have d: "\<bar>d\<bar> \<le> 2 ^ 53" using c t by (simp add: d_def)
  have d2: "double_of (of_int t - of_int c) = Num (of_int d)"
    using double_of_int[OF d] by (simp add: d_def)
  define p :: rat where "p = fl (of_int d * q)"
  have dq: "\<bar>of_int d * q\<bar> \<le> \<bar>of_int d\<bar>"
    using q by (simp add: abs_mult mult_left_le)
  have dabs: "\<bar>(of_int d :: rat)\<bar> \<le> 2 ^ 53" using d
    by (metis of_int_abs of_int_le_iff of_int_numeral of_int_power)
  have d3: "double_of (of_int d * q) = Num p"
    unfolding p_def using dq dabs by (intro double_of_small) linarith
  have pb: "min 0 (of_int d) \<le> p \<and> p \<le> max 0 (of_int d)"
  proof (cases "0 \<le> d")
    case True
    then have "of_int 0 \<le> of_int d * q" "of_int d * q \<le> of_int d"
      using q by (simp_all add: mult_left_le)
    from fl_between[OF this] d True show ?thesis by (simp add: p_def)
  next
    case False
    then have neg: "(of_int d :: rat) \<le> 0" by simp
    have "0 \<le> (q - 1) * of_int d" using neg q by (intro mult_nonpos_nonpos) auto
    then have "of_int d \<le> of_int d * q" by (simp add: algebra_simps)
    moreover have "of_int d * q \<le> of_int 0" using neg q by (simp add: mult_nonpos_nonneg)
    ultimately show ?thesis using fl_between[of d "of_int d * q" 0] d False by (simp add: p_def)
  qed
  have cp: "of_int (min c t) \<le> of_int c + p" "of_int c + p \<le> of_int (max c t)"
    using pb by (auto simp: d_def min_def max_def split: if_splits)
  have mm: "\<bar>min c t\<bar> \<le> 2 ^ 53" "\<bar>max c t\<bar> \<le> 2 ^ 53" using c t by (auto simp: min_def max_def)
  have small: "\<bar>of_int c + p\<bar> \<le> 2 ^ 53"
  proof -
    have "- (2 ^ 53) \<le> (of_int (min c t) :: rat)" "(of_int (max c t) :: rat) \<le> 2 ^ 53"
      using mm by (metis abs_le_iff minus_le_iff of_int_le_iff of_int_numeral of_int_power of_int_minus)+
    then show ?thesis using cp by (intro abs_leI) linarith+
  qed
  have d4: "double_of (of_int c + p) = Num (fl (of_int c + p))"
    using small by (rule double_of_small)
  show "ramp_value (Num (of_int c)) (Num (of_int t)) i = Num (of_int (ramp_int c t i))"
    using d1 d2 d3 d4
    by (simp add: ramp_value_def ramp_int_def steps_def js_sub_def p_def q_def d_def)
  define y where "y = fl (of_int c + p)"
  have y: "of_int (min c t) \<le> y" "y \<le> of_int (max c t)"
    using fl_between[OF cp mm] by (simp_all add: y_def)
  have r: "ramp_int c t i = \<lfloor>y + 1 / 2\<rfloor>"
    by (simp add: ramp_int_def y_def p_def q_def d_def)
  have "of_int (min c t) \<le> y + 1 / 2" using y(1) by linarith
  then show "min c t \<le> ramp_int c t i" unfolding r by (simp only: le_floor_iff)
  have "y + 1 / 2 < of_int (max c t) + 1" using y(2) by linarith
  then show "ramp_int c t i \<le> max c t" unfolding r by (simp only: floor_le_iff)
qed

lemma ramp_int_mono:
  assumes "i \<le> j"
  shows "c \<le> t \<Longrightarrow> ramp_int c t i \<le> ramp_int c t j"
    and "t \<le> c \<Longrightarrow> ramp_int c t j \<le> ramp_int c t i"
proof -
  have q: "fl (of_nat i / 10) \<le> fl (of_nat j / 10)"
    using assms by (intro fl_mono) simp
  {
    assume "c \<le> t"
    then have "of_int (t - c) * fl (of_nat i / 10) \<le> of_int (t - c) * fl (of_nat j / 10)"
      using q by (intro mult_left_mono) auto
    then have "fl (of_int (t - c) * fl (of_nat i / 10)) \<le> fl (of_int (t - c) * fl (of_nat j / 10))"
      by (rule fl_mono)
    then have "fl (of_int c + fl (of_int (t - c) * fl (of_nat i / 10)))
             \<le> fl (of_int c + fl (of_int (t - c) * fl (of_nat j / 10)))"
      by (intro fl_mono) simp
    then show "ramp_int c t i \<le> ramp_int c t j"
      unfolding ramp_int_def by (intro floor_mono) simp
  }
  {
    assume "t \<le> c"
    then have "of_int (t - c) * fl (of_nat j / 10) \<le> of_int (t - c) * fl (of_nat i / 10)"
      using q by (intro mult_left_mono_neg) auto
    then have "fl (of_int (t - c) * fl (of_nat j / 10)) \<le> fl (of_int (t - c) * fl (of_nat i / 10))"
      by (rule fl_mono)
    then have "fl (of_int c + fl (of_int (t - c) * fl (of_nat j / 10)))
             \<le> fl (of_int c + fl (of_int (t - c) * fl (of_nat i / 10)))"
      by (intro fl_mono) simp
    then show "ramp_int c t j \<le> ramp_int c t i"
      unfolding ramp_int_def by (intro floor_mono) simp
  }
qed

lemma ramp_int_last:
  assumes "\<bar>c\<bar> \<le> 2 ^ 52" "\<bar>t\<bar> \<le> 2 ^ 52"
  shows "ramp_int c t 10 = t"
proof -
  have 1: "fl (of_nat 10 / 10) = 1" using fl_of_int[of 1] by simp
  have "\<bar>t - c\<bar> \<le> 2 ^ 53" using assms by simp
  from fl_of_int[OF this] have 2: "fl (of_int (t - c)) = of_int (t - c)" .
  have "\<bar>t\<bar> \<le> 2 ^ 53" using assms by simp
  from fl_of_int[OF this] have 3: "fl (of_int t) = of_int t" .
  have "of_int c + (of_int (t - c) :: rat) = of_int t" by simp
  then have "fl (of_int c + fl (of_int (t - c) * fl (of_nat 10 / 10))) = of_int t"
    unfolding 1 by (simp only: mult_1_right 2 3)
  moreover have "\<lfloor>(of_int t :: rat) + 1 / 2\<rfloor> = t" by (rule floor_unique) simp_all
  ultimately show ?thesis unfolding ramp_int_def by simp
qed

lemma sorted_map_upt:
  fixes f :: "nat \<Rightarrow> int"
  assumes "\<And>i j. a \<le> i \<Longrightarrow> i \<le> j \<Longrightarrow> j < b \<Longrightarrow> f i \<le> f j"
  shows "sorted (map f [a ..< b])"
  by (auto simp: sorted_iff_nth_mono intro!: assms)

lemma sorted_rev_map_upt:
  fixes f :: "nat \<Rightarrow> int"
  assumes "\<And>i j. a \<le> i \<Longrightarrow> i \<le> j \<Longrightarrow> j < b \<Longrightarrow> f j \<le> f i"
  shows "sorted (rev (map f [a ..< b]))"
  by (auto simp: sorted_rev_iff_nth_mono intro!: assms)

text \<open>The operation, once the device, the executable and the current value are there,
  is its loop.\<close>

lemma setBrightnessSmooth_ramp:
  assumes "(if \<not> truthy device0 then findCarThing env else return device0) s = (Inr device, s0)"
      and "truthy device"
      and "getAdbExecutable env s0 = (Inr adb, s1)"
      and "getBrightness env device False s1 = (Inr cur, s2)"
  shows "setBrightnessSmooth env device0 brightness s
           = ramp env adb (ToString device) cur (Math_max (formatBrightness brightness) (Num 1)) 1 s2"
  using assms by (simp add: setBrightnessSmooth_def await_Inr Let_def)

text \<open>
  Claim C10.  Let \<open>c\<close> be the current raw value read back and \<open>t\<close> the computed target
  raw value, both integers of magnitude up to \<open>2 ^ 52\<close>.  The values that
  \<open>setBrightnessSmooth\<close> writes, ten of them when the operation completes, are integers in
  non-decreasing order when \<open>c \<le> t\<close>, in non-increasing order when \<open>t \<le> c\<close>, and each
  lies between \<open>min c t\<close> and \<open>max c t\<close>.  This holds of the values written up to a
  rejected write as well.
\<close>

theorem setBrightnessSmooth_monotone:
  assumes "(if \<not> truthy device0 then findCarThing env else return device0) s = (Inr device, s0)"
      and "truthy device"
      and "getAdbExecutable env s0 = (Inr adb, s1)"
      and "getBrightness env device False s1 = (Inr (Num (of_int c)), s2)"
      and "Math_max (formatBrightness brightness) (Num 1) = Num (of_int t)"
      and "\<bar>c\<bar> \<le> 2 ^ 52" and "\<bar>t\<bar> \<le> 2 ^ 52"
  shows "\<exists>vs. cmds (snd (setBrightnessSmooth env device0 brightness s))
                = cmds s2 @ map (\<lambda>v. echo_brightness adb (ToString device) (Num (of_int v))) vs
            \<and> length vs \<le> 10
            \<and> (fst (setBrightnessSmooth env device0 brightness s) = Inr () \<longrightarrow> length vs = 10)
            \<and> (c \<le> t \<longrightarrow> sorted vs)
            \<and> (t \<le> c \<longrightarrow> sorted (rev vs))
            \<and> (\<forall>v \<in> set vs. min c t \<le> v \<and> v \<le> max c t)"
proof -
  let ?r = "ramp env adb (ToString device) (Num (of_int c)) (Num (of_int t)) 1 s2"
  have eq: "setBrightnessSmooth env device0 brightness s = ?r"
    using setBrightnessSmooth_ramp[OF assms(1-4)] assms(5) by simp
  from ramp_cmds[of 1 env adb "ToString device" "Num (of_int c)" "Num (of_int t)" s2]
  obtain n where n: "1 + n \<le> steps + 1"
    "cmds (snd ?r) = cmds s2 @ map (\<lambda>k. echo_brightness adb (ToString device)
                                     (ramp_value (Num (of_int c)) (Num (of_int t)) k)) [1 ..< 1 + n]"
    "fst ?r = Inr () \<longrightarrow> 1 + n = steps + 1"
    by (auto simp: steps_def)
  define vs where "vs = map (ramp_int c t) [1 ..< 1 + n]"
  have n10: "n \<le> 10" using n(1) by (simp add: steps_def)
  have "\<And>k. k \<in> set [1 ..< 1 + n] \<Longrightarrow>
          ramp_value (Num (of_int c)) (Num (of_int t)) k = Num (of_int (ramp_int c t k))"
    using n10 by (intro ramp_value_int(1)[OF assms(6,7)]) auto
  then have "map (\<lambda>k. echo_brightness adb (ToString device)
                (ramp_value (Num (of_int c)) (Num (of_int t)) k)) [1 ..< 1 + n]
      = map (\<lambda>v. echo_brightness adb (ToString device) (Num (of_int v))) vs"
    unfolding vs_def by (simp add: comp_def)
  then have 1: "cmds (snd ?r) = cmds s2 @ map (\<lambda>v. echo_brightness adb (ToString device) (Num (of_int v))) vs"
    using n(2) by simp
  have 2: "length vs \<le> 10" using n10 by (simp add: vs_def)
  have 3: "fst ?r = Inr () \<longrightarrow> length vs = 10" using n(3) by (simp add: vs_def steps_def)
  have 4: "c \<le> t \<longrightarrow> sorted vs"
    unfolding vs_def using ramp_int_mono(1) by (intro impI sorted_map_upt) auto
  have 5: "t \<le> c \<longrightarrow> sorted (rev vs)"
    unfolding vs_def using ramp_int_mono(2) by (intro impI sorted_rev_map_upt) auto
  have 6: "\<forall>v \<in> set vs. min c t \<le> v \<and> v \<le> max c t"
    unfolding vs_def using n10 ramp_value_int(2,3)[OF assms(6,7)] by auto
  show ?thesis unfolding eq using 1 2 3 4 5 6 by blast
qed

text \<open>
  Claim C1.  Let the brightness \<open>b\<close> be normalized, \<open>0 \<le> b \<le> 1\<close>, and let the value read
  back from the device be an integer \<open>c\<close> (of magnitude up to \<open>2 ^ 52\<close>; a raw value is at
  most 255).  If the runner rejects no write, \<open>setBrightnessSmooth\<close> completes, the commands
  it runs after the read are exactly ten writes, whatever the distance between \<open>c\<close> and
  the target, and the tenth writes \<open>max (formatBrightness b) 1\<close>.
\<close>

theorem setBrightnessSmooth_ten_writes:
  assumes "(if \<not> truthy device0 then findCarThing env else return device0) s = (Inr device, s0)"
      and "truthy device"
      and "getAdbExecutable env s0 = (Inr adb, s1)"
      and "getBrightness env device False s1 = (Inr (Num (of_int c)), s2)"
      and "\<bar>c\<bar> \<le> 2 ^ 52"
      and "0 \<le> b" and "b \<le> 1"
      and "\<forall>v w. fst (run env (echo_brightness adb (ToString device) v) w) \<noteq> Rejects"
  shows "\<exists>vs s'. setBrightnessSmooth env device0 (Num b) s = (Inr (), s')
            \<and> cmds s' = cmds s2 @ map (echo_brightness adb (ToString device)) vs
            \<and> length vs = 10
            \<and> last vs = Math_max (formatBrightness (Num b)) (Num 1)"
proof -
  define k where "k = \<lfloor>fl (b * 255) + 1 / 2\<rfloor>"
  define t where "t = max (255 - k) 1"
  have k: "0 \<le> k" "k \<le> 255"
    using formatBrightness_value(2,3)[OF assms(6,7)] by (simp_all add: k_def)
  have "formatBrightness (Num b) = Num (of_int (255 - k))"
    using formatBrightness_value(1)[OF assms(6,7)] by (simp add: k_def)
  then have target: "Math_max (formatBrightness (Num b)) (Num 1) = Num (of_int t)"
    by (simp add: t_def max_def)
  have t: "\<bar>t\<bar> \<le> 2 ^ 52" using k by (simp add: t_def)
  let ?c = "Num (of_int c)" and ?t = "Num (of_int t)"
  let ?r = "ramp env adb (ToString device) ?c ?t 1 s2"
  have eq: "setBrightnessSmooth env device0 (Num b) s = ?r"
    using setBrightnessSmooth_ramp[OF assms(1-4)] target by simp
  have compl: "fst ?r = Inr ()"
    using assms(8) by (intro ramp_completes) (simp_all add: steps_def)
  from ramp_cmds[of 1 env adb "ToString device" ?c ?t s2]
  obtain n where n: "1 + n \<le> steps + 1"
    "cmds (snd ?r) = cmds s2 @ map (\<lambda>k. echo_brightness adb (ToString device) (ramp_value ?c ?t k))
                                 [1 ..< 1 + n]"
    "fst ?r = Inr () \<longrightarrow> 1 + n = steps + 1"
    by (auto simp: steps_def)
  have n10: "n = 10" using n(3) compl by (simp add: steps_def)
  define vs where "vs = map (ramp_value ?c ?t) [1 ..< 11]"
  have 1: "cmds (snd ?r) = cmds s2 @ map (echo_brightness adb (ToString device)) vs"
    using n(2) by (simp add: n10 vs_def comp_def)
  have 2: "length vs = 10" by (simp add: vs_def)
  have "[1 ..< 11] = [1 ..< 10] @ [10::nat]" by (simp add: upt_rec)
  then have "last vs = ramp_value ?c ?t 10" by (simp add: vs_def)
  also have "\<dots> = Num (of_int (ramp_int c t 10))"
    using ramp_value_int(1)[OF assms(5) t] by simp
  also have "\<dots> = Num (of_int t)" using ramp_int_last[OF assms(5) t] by simp
  finally have 3: "last vs = Math_max (formatBrightness (Num b)) (Num 1)" using target by simp
  have "setBrightnessSmooth env device0 (Num b) s = (Inr (), snd ?r)"
    unfolding eq using compl by (cases ?r) simp
  then show ?thesis using 1 2 3 by blast
qed


section \<open>The ramp on the simulated host\<close>

lemma sim_never_rejects_write:
  "\<forall>v w. fst (run sim_env (echo_brightness ''adb'' (ToString (Some ''X'')) v) w) \<noteq> Rejects"
  by (simp add: sim_env_def sim_run_def echo_brightness_def ToString_def quoted_def)

lemma sim_read_100:
  "fst (getBrightness sim_env (Some ''X'') False
          (snd (getAdbExecutable sim_env (start sim_host)))) = Inr (Num (of_int 100))"
  by (simp add: getBrightness_def sim_eval parseInt_eval)

text \<open>The ramp from 100 to the target of brightness one half, on the simulated host.\<close>

theorem setBrightnessSmooth_ten_writes_witness:
  "truthy (Some ''X'')
   \<and> fst (getAdbExecutable sim_env (start sim_host)) = Inr ''adb''
   \<and> fst (getBrightness sim_env (Some ''X'') False
            (snd (getAdbExecutable sim_env (start sim_host)))) = Inr (Num (of_int 100))
   \<and> \<bar>100::int\<bar> \<le> 2 ^ 52 \<and> (0::rat) \<le> 1 / 2 \<and> (1::rat) / 2 \<le> 1
   \<and> (\<forall>v w. fst (run sim_env (echo_brightness ''adb'' (ToString (Some ''X'')) v) w) \<noteq> Rejects)
   \<and> (\<exists>vs s'. setBrightnessSmooth sim_env (Some ''X'') (Num (1 / 2)) (start sim_host) = (Inr (), s')
         \<and> cmds s' = cmds (snd (getBrightness sim_env (Some ''X'') False
                                  (snd (getAdbExecutable sim_env (start sim_host)))))
                     @ map (echo_brightness ''adb'' (ToString (Some ''X''))) vs
         \<and> length vs = 10
         \<and> last vs = Math_max (formatBrightness (Num (1 / 2))) (Num 1))"
proof -
  let ?s1 = "snd (getAdbExecutable sim_env (start sim_host))"
  let ?s2 = "snd (getBrightness sim_env (Some ''X'') False ?s1)"
  have t: "truthy (Some ''X'')" by (simp add: truthy_def)
  have h1: "(if \<not> truthy (Some ''X'') then findCarThing sim_env else return (Some ''X''))
              (start sim_host) = (Inr (Some ''X''), start sim_host)"
    by (simp add: truthy_def return_def)
  have a: "fst (getAdbExecutable sim_env (start sim_host)) = Inr ''adb''"
    by (simp add: sim_eval)
  have c: "\<bar>100::int\<bar> \<le> 2 ^ 52" by simp
  have b: "(0::rat) \<le> 1 / 2" "(1::rat) / 2 \<le> 1" by simp_all
  from setBrightnessSmooth_ten_writes[OF h1 t pair_fst_snd[OF a] pair_fst_snd[OF sim_read_100]
      c b sim_never_rejects_write]
  show ?thesis using t a sim_read_100 c b sim_never_rejects_write by blast
qed

lemma sim_target_1: "Math_max (formatBrightness (Num 1)) (Num 1) = Num (of_int 1)"
proof -
  have "fl (1 * 255) = 255" using fl_of_int[of 255] by simp
  moreover have "\<lfloor>(255::rat) + 1 / 2\<rfloor> = 255" by (rule floor_unique) simp_all
  ultimately have "formatBrightness (Num 1) = Num 0"
    using formatBrightness_value(1)[of 1] by simp
  then show ?thesis by simp
qed

text \<open>The ramp from 100 down to 1, the target of full brightness.\<close>

theorem setBrightnessSmooth_monotone_witness:
  "truthy (Some ''X'')
   \<and> fst (getAdbExecutable sim_env (start sim_host)) = Inr ''adb''
   \<and> fst (getBrightness sim_env (Some ''X'') False
            (snd (getAdbExecutable sim_env (start sim_host)))) = Inr (Num (of_int 100))
   \<and> Math_max (formatBrightness (Num 1)) (Num 1) = Num (of_int 1)
   \<and> \<bar>100::int\<bar> \<le> 2 ^ 52 \<and> \<bar>1::int\<bar> \<le> 2 ^ 52
   \<and> fst (setBrightnessSmooth sim_env (Some ''X'') (Num 1) (start sim_host)) = Inr ()
   \<and> (\<exists>vs. cmds (snd (setBrightnessSmooth sim_env (Some ''X'') (Num 1) (start sim_host)))
               = cmds (snd (getBrightness sim_env (Some ''X'') False
                              (snd (getAdbExecutable sim_env (start sim_host)))))
                 @ map (\<lambda>v. echo_brightness ''adb'' (ToString (Some ''X'')) (Num (of_int v))) vs
         \<and> length vs = 10
         \<and> sorted (rev vs)
         \<and> (\<forall>v \<in> set vs. 1 \<le> v \<and> v \<le> 100))"
proof -
  let ?s1 = "snd (getAdbExecutable sim_env (start sim_host))"
  let ?s2 = "snd (getBrightness sim_env (Some ''X'') False ?s1)"
  have t: "truthy (Some ''X'')" by (simp add: truthy_def)
  have h1: "(if \<not> truthy (Some ''X'') then findCarThing sim_env else return (Some ''X''))
              (start sim_host) = (Inr (Some ''X''), start sim_host)"
    by (simp add: truthy_def return_def)
  have a: "fst (getAdbExecutable sim_env (start sim_host)) = Inr ''adb''"
    by (simp add: sim_eval)
  have c: "\<bar>100::int\<bar> \<le> 2 ^ 52" "\<bar>1::int\<bar> \<le> 2 ^ 52" by simp_all
  have "setBrightnessSmooth sim_env (Some ''X'') (Num 1) (start sim_host)
          = ramp sim_env ''adb'' (ToString (Some ''X'')) (Num (of_int 100)) (Num (of_int 1)) 1 ?s2"
    using setBrightnessSmooth_ramp[OF h1 t pair_fst_snd[OF a] pair_fst_snd[OF sim_read_100]]
      sim_target_1 by simp
  then have f: "fst (setBrightnessSmooth sim_env (Some ''X'') (Num 1) (start sim_host)) = Inr ()"
    using ramp_completes[OF _ sim_never_rejects_write, of 1] by (simp add: steps_def)
  from setBrightnessSmooth_monotone[OF h1 t pair_fst_snd[OF a] pair_fst_snd[OF sim_read_100]
      sim_target_1 c]
  obtain vs where vs:
    "cmds (snd (setBrightnessSmooth sim_env (Some ''X'') (Num 1) (start sim_host)))
       = cmds ?s2 @ map (\<lambda>v. echo_brightness ''adb'' (ToString (Some ''X'')) (Num (of_int v))) vs"
    "fst (setBrightnessSmooth sim_env (Some ''X'') (Num 1) (start sim_host)) = Inr ()
       \<longrightarrow> length vs = 10"
    "(1::int) \<le> 100 \<longrightarrow> sorted (rev vs)"
    "\<forall>v \<in> set vs. min 100 1 \<le> v \<and> v \<le> max 100 1"
    by blast
  have "length vs = 10" "sorted (rev vs)" "\<forall>v \<in> set vs. 1 \<le> v \<and> v \<le> 100"
    using vs(2-4) f by simp_all
  then show ?thesis using vs(1) t a sim_read_100 sim_target_1 c f by blast
qed

section \<open>Quiet tasks\<close>

lemma quiet_return [intro!]: "quiet (return a)"
  by (simp add: quiet_def return_def)

lemma quiet_throw: "e \<noteq> no_device \<Longrightarrow> quiet (throw e)"
  by (simp add: quiet_def throw_def)

lemma quiet_await [intro!]:
  assumes "quiet m" "\<And>a. quiet (f a)"
  shows "quiet (await m f)"
  unfolding quiet_def
proof (intro allI)
  fix s
  obtain r s' where m: "m s = (r, s')" by (cases "m s")
  have 1: "discoveries s' = discoveries s" "r \<noteq> Inl no_device"
    using assms(1) m unfolding quiet_def by (metis snd_conv, metis fst_conv)
  show "discoveries (snd (await m f s)) = discoveries s \<and> fst (await m f s) \<noteq> Inl no_device"
  proof (cases r)
    case (Inl e)
    then show ?thesis using m 1 by (simp add: await_def)
  next
    case (Inr a)
    then show ?thesis using m 1 assms(2)[of a] by (simp add: await_def quiet_def)
  qed
qed

lemma quiet_execAsync [intro!]: "quiet (execAsync env cmd)"
  by (auto simp: quiet_def execAsync_def discoveries_def split: prod.splits outcome.splits)

lemma quiet_catch_null [intro!]: "quiet m \<Longrightarrow> quiet (catch_null m)"
  unfolding quiet_def catch_null_def
  by (auto split: prod.splits sum.splits) (metis snd_conv)+

lemma quiet_log_msg: "msg \<noteq> ''Finding CarThing...'' \<Longrightarrow> quiet (log_msg msg scope level)"
  by (simp add: quiet_def log_msg_def discoveries_def)

lemma quiet_host [intro!]: "quiet (host f)"
  by (auto simp: quiet_def host_def discoveries_def split: prod.splits option.splits)

lemma quiet_fs_existsSync [intro!]: "quiet (fs_existsSync env path)"
  by (simp add: quiet_def fs_existsSync_def)

lemma quiet_axios_get_status [intro!]: "quiet (axios_get_status env url)"
  by (auto simp: quiet_def axios_get_status_def discoveries_def split: prod.splits option.splits)

lemma quiet_read_password [intro!]: "quiet (read_password env)"
  by (simp add: quiet_def read_password_def)

lemma quiet_if [intro!]: "(c \<Longrightarrow> quiet m) \<Longrightarrow> (\<not> c \<Longrightarrow> quiet n) \<Longrightarrow> quiet (if c then m else n)"
  by simp

lemma quiet_case_option [intro!]:
  "(x = None \<Longrightarrow> quiet m) \<Longrightarrow> (\<And>a. x = Some a \<Longrightarrow> quiet (f a)) \<Longrightarrow>
   quiet (case x of None \<Rightarrow> m | Some a \<Rightarrow> f a)"
  by (cases x) simp_all

lemma quiet_getAdbExecutable [intro!]: "quiet (getAdbExecutable env)"
  unfolding getAdbExecutable_def Let_def
  by (intro quiet_await quiet_if quiet_catch_null quiet_execAsync quiet_return
      quiet_fs_existsSync quiet_host quiet_axios_get_status quiet_throw quiet_log_msg)
     simp_all

lemma quiet_getDevices [intro!]: "quiet (getDevices env)"
  unfolding getDevices_def
  by (intro quiet_await quiet_getAdbExecutable quiet_execAsync quiet_case_option quiet_throw
      quiet_return) simp_all

lemma quiet_checkValidDevice [intro!]: "quiet (checkValidDevice env device)"
  unfolding checkValidDevice_def
  by (intro quiet_await quiet_getAdbExecutable quiet_execAsync quiet_case_option quiet_throw
      quiet_return) simp_all

lemma quiet_first_valid [intro!]: "quiet (first_valid env devices)"
proof (induction devices)
  case Nil
  then show ?case by (simp add: quiet_return)
next
  case (Cons device rest)
  show ?case
    unfolding first_valid.simps
    by (intro quiet_await quiet_checkValidDevice quiet_if quiet_log_msg quiet_return Cons.IH)
       simp_all
qed

text \<open>A discovery is one line in the log and a quiet rest.\<close>

lemma findCarThing_discovery:
  "discoveries (snd (findCarThing env s)) = discoveries s + 1"
  "fst (findCarThing env s) \<noteq> Inl no_device"
proof -
  let ?rest = "await (getDevices env) (\<lambda>devices.
     await (first_valid env devices) (\<lambda>found.
     case found of
       Some device \<Rightarrow> return (Some device)
     | None \<Rightarrow>
         await (log_msg ''No valid CarThing found'' ''adb'' (Some WARN)) (\<lambda>_.
         return None)))"
  let ?s = "s\<lparr>logs := logs s @ [(''Finding CarThing...'', ''adb'', Some DEBUG)]\<rparr>"
  have q: "quiet ?rest"
    by (intro quiet_await quiet_getDevices quiet_first_valid quiet_case_option quiet_log_msg
        quiet_return) simp_all
  have eq: "findCarThing env s = ?rest ?s" by (simp add: findCarThing_def)
  have "discoveries ?s = discoveries s + 1" by (simp add: discoveries_def)
  then show "discoveries (snd (findCarThing env s)) = discoveries s + 1"
    "fst (findCarThing env s) \<noteq> Inl no_device"
    using q unfolding eq quiet_def by simp_all
qed

text \<open>The two lines that open every operation give it the device policy, when what
  follows them is quiet.\<close>

lemma guard_policy:
  assumes "\<And>device. truthy device \<Longrightarrow> quiet (body device)"
  shows "device_policy env
           (\<lambda>device0. await (if \<not> truthy device0 then findCarThing env else return device0)
              (\<lambda>device. if \<not> truthy device then throw no_device else body device))"
    (is "device_policy env ?f")
proof -
  have given: "?f device = body device" if "truthy device" for device
    using that by simp
  have 1: "discoveries (snd (?f device s)) = discoveries s \<and> fst (?f device s) \<noteq> Inl no_device"
    if "truthy device" for device s
    using assms[OF that] unfolding given[OF that] quiet_def by simp
  have 2: "discoveries (snd (?f device s)) = discoveries s + 1
         \<and> (fst (?f device s) = Inl no_device
              \<longleftrightarrow> (\<exists>found. fst (findCarThing env s) = Inr found \<and> \<not> truthy found))
         \<and> (\<forall>found s'. findCarThing env s = (Inr found, s') \<and> truthy found
                \<longrightarrow> ?f device s = ?f found s')"
    if falsy: "\<not> truthy device" for device s
  proof -
    obtain r s' where f: "findCarThing env s = (r, s')" by (cases "findCarThing env s")
    have d: "discoveries s' = discoveries s + 1" and r: "r \<noteq> Inl no_device"
      using findCarThing_discovery[of env s] f by simp_all
    show ?thesis
    proof (cases r)
      case (Inl e)
      then have "?f device s = (Inl e, s')" using falsy f by (simp add: await_def)
      then show ?thesis using d r f Inl by simp
    next
      case (Inr found)
      show ?thesis
      proof (cases "truthy found")
        case True
        have "?f device s = body found s'" using falsy f Inr True by (simp add: await_def)
        then have eq: "?f device s = ?f found s'" using given[OF True] by simp
        then show ?thesis using 1[OF True, of s'] d f Inr True by auto
      next
        case False
        have "?f device s = (Inl no_device, s')"
          using falsy f Inr False by (simp add: await_def throw_def)
        then show ?thesis using d f Inr False by auto
      qed
    qed
  qed
  show ?thesis unfolding device_policy_def using 1 2 by blast
qed

lemma policy_quiet:
  assumes "device_policy env f" "truthy device"
  shows "quiet (f device)"
  using assms unfolding device_policy_def quiet_def by blast

section \<open>The device policy of the nine operations\<close>

lemma restartChromium_policy: "device_policy env (restartChromium env)"
  unfolding restartChromium_def
  by (rule guard_policy)
     (intro quiet_await quiet_getAdbExecutable quiet_execAsync quiet_log_msg; simp)

lemma setAutoBrightness_policy: "device_policy env (\<lambda>device. setAutoBrightness env device enabled)"
  unfolding setAutoBrightness_def
  by (rule guard_policy)
     (intro quiet_await quiet_getAdbExecutable quiet_execAsync quiet_return)

lemma getBrightness_policy: "device_policy env (\<lambda>device. getBrightness env device parse)"
  unfolding getBrightness_def
  by (rule guard_policy)
     (intro quiet_await quiet_getAdbExecutable quiet_execAsync quiet_return)

lemma setBrightness_policy: "device_policy env (\<lambda>device. setBrightness env device brightness)"
  unfolding setBrightness_def Let_def
  by (rule guard_policy)
     (intro quiet_await quiet_getAdbExecutable quiet_execAsync quiet_return)

lemma quiet_ramp: "quiet (ramp env adb device c t i)"
proof (induction "steps + 1 - i" arbitrary: i)
  case 0
  then have "\<not> i \<le> steps" by simp
  then have "ramp env adb device c t i = return ()"
    by (subst ramp.simps) simp
  then show ?case by (simp add: quiet_return)
next
  case (Suc m)
  then have i: "i \<le> steps" by simp
  have "m = steps + 1 - (i + 1)" using Suc(2) by simp
  from Suc(1)[OF this] have "quiet (ramp env adb device c t (i + 1))" .
  then show ?case
    using i by (subst ramp.simps) (auto simp: Let_def intro!: quiet_await quiet_execAsync)
qed

lemma setBrightnessSmooth_policy:
  "device_policy env (\<lambda>device. setBrightnessSmooth env device brightness)"
  unfolding setBrightnessSmooth_def Let_def
  by (rule guard_policy)
     (intro quiet_await quiet_getAdbExecutable quiet_ramp
        policy_quiet[OF getBrightness_policy]; simp)

lemma restore_policy: "device_policy env (\<lambda>device. restore env device restart)"
  unfolding restore_def
  by (rule guard_policy)
     (intro quiet_await quiet_getAdbExecutable quiet_execAsync quiet_log_msg quiet_if
        quiet_return policy_quiet[OF restartChromium_policy]; simp)

lemma installApp_policy: "device_policy env (installApp env)"
  unfolding installApp_def
  by (rule guard_policy)
     (intro quiet_await quiet_getAdbExecutable quiet_execAsync quiet_log_msg quiet_host
        quiet_read_password policy_quiet[OF restore_policy]
        policy_quiet[OF restartChromium_policy]; simp)

lemma checkInstalledApp_policy: "device_policy env (checkInstalledApp env)"
  unfolding checkInstalledApp_def
  by (rule guard_policy)
     (intro quiet_await quiet_getAdbExecutable quiet_execAsync quiet_case_option quiet_throw
        quiet_return; simp)

lemma forwardSocketServer_policy: "device_policy env (forwardSocketServer env)"
  unfolding forwardSocketServer_def
  by (rule guard_policy)
     (intro quiet_await quiet_getAdbExecutable quiet_execAsync quiet_host quiet_log_msg; simp)

text \<open>
  Claim C8, as amended.  Each of the nine operations, called with null or with the empty
  string for the device, starts exactly one discovery with \<open>findCarThing\<close>, raises the
  no-device error exactly when \<open>findCarThing\<close> returns null or the empty string, and
  otherwise goes on with the device found.  Called with an identifier that is neither null
  nor empty, it starts no discovery and does not raise that error.
\<close>

theorem operations_device_policy:
  "device_policy env (\<lambda>device. setAutoBrightness env device enabled)
   \<and> device_policy env (\<lambda>device. getBrightness env device parse)
   \<and> device_policy env (\<lambda>device. setBrightness env device brightness)
   \<and> device_policy env (\<lambda>device. setBrightnessSmooth env device brightness)
   \<and> device_policy env (\<lambda>device. restore env device restart)
   \<and> device_policy env (installApp env)
   \<and> device_policy env (checkInstalledApp env)
   \<and> device_policy env (forwardSocketServer env)
   \<and> device_policy env (restartChromium env)"
  by (intro conjI setAutoBrightness_policy getBrightness_policy setBrightness_policy
      setBrightnessSmooth_policy restore_policy installApp_policy checkInstalledApp_policy
      forwardSocketServer_policy restartChromium_policy)


text \<open>Three calls on the simulated host: with the device given, with no device given, and
  with no device given when none is attached.\<close>

theorem operations_device_policy_witness:
  "truthy (Some ''X'')
   \<and> discoveries (snd (getBrightness sim_env (Some ''X'') False (start sim_host)))
       = discoveries (start sim_host)
   \<and> fst (getBrightness sim_env (Some ''X'') False (start sim_host)) \<noteq> Inl no_device
   \<and> \<not> truthy None
   \<and> discoveries (snd (installApp sim_env None (start sim_host)))
       = discoveries (start sim_host) + 1
   \<and> fst (findCarThing sim_env (start (sim_host\<lparr>attached := Stdout ''List of devices attached''\<rparr>)))
       = Inr None
   \<and> fst (restore sim_env None True
            (start (sim_host\<lparr>attached := Stdout ''List of devices attached''\<rparr>)))
       = Inl no_device"
proof -
  note p = operations_device_policy[of sim_env True False "Num 1" True]
  have gb: "device_policy sim_env (\<lambda>device. getBrightness sim_env device False)"
    by (rule p[THEN conjunct2, THEN conjunct1])
  have ia: "device_policy sim_env (installApp sim_env)"
    by (rule p[THEN conjunct2, THEN conjunct2, THEN conjunct2, THEN conjunct2, THEN conjunct2,
          THEN conjunct1])
  have re: "device_policy sim_env (\<lambda>device. restore sim_env device True)"
    by (rule p[THEN conjunct2, THEN conjunct2, THEN conjunct2, THEN conjunct2, THEN conjunct1])
  have t: "truthy (Some ''X'')" "\<not> truthy None" by (simp_all add: truthy_def)
  have n: "fst (findCarThing sim_env
                  (start (sim_host\<lparr>attached := Stdout ''List of devices attached''\<rparr>))) = Inr None"
    by (simp add: sim_eval)
  have 1: "discoveries (snd (getBrightness sim_env (Some ''X'') False (start sim_host)))
             = discoveries (start sim_host)
         \<and> fst (getBrightness sim_env (Some ''X'') False (start sim_host)) \<noteq> Inl no_device"
    by (rule gb[unfolded device_policy_def, THEN spec, THEN spec, THEN conjunct1, THEN mp, OF t(1)])
  have 2: "discoveries (snd (installApp sim_env None (start sim_host)))
             = discoveries (start sim_host) + 1"
    by (rule ia[unfolded device_policy_def, THEN spec, THEN spec, THEN conjunct2, THEN mp,
          OF t(2), THEN conjunct1])
  have ex: "\<exists>found. fst (findCarThing sim_env
                  (start (sim_host\<lparr>attached := Stdout ''List of devices attached''\<rparr>))) = Inr found
          \<and> \<not> truthy found"
    using n t(2) by (intro exI[of _ None]) simp
  have 3: "fst (restore sim_env None True
            (start (sim_host\<lparr>attached := Stdout ''List of devices attached''\<rparr>))) = Inl no_device"
    by (rule re[unfolded device_policy_def, THEN spec, THEN spec, THEN conjunct2, THEN mp,
          OF t(2), THEN conjunct2, THEN conjunct1, THEN iffD2, OF ex])
  show ?thesis using t 1 2 n 3 by (intro conjI) simp_all
qed

text \<open>
  The claim as stated has every non-null identifier suppress discovery.  The guard is
  \<^verbatim>\<open>if (!device)\<close>, and the empty string is falsy: given the empty string, which is not
  null, \<open>getBrightness\<close> starts a discovery, and raises the no-device error when nothing is
  attached.
\<close>

theorem empty_identifier_is_discovered:
  "Some [] \<noteq> (None :: string option)
   \<and> discoveries (start sim_host) = 0
   \<and> discoveries (snd (getBrightness sim_env (Some []) False (start sim_host))) = 1
   \<and> fst (getBrightness sim_env (Some []) False
            (start (sim_host\<lparr>attached := Stdout ''List of devices attached''\<rparr>)))
       = Inl no_device"
  by (simp add: getBrightness_def discoveries_def sim_eval parseInt_eval)

end
